theory Spec2Isabelle
  imports Complex_Main
begin

section \<open>Values, errors and the model object\<close>

text \<open>
  The label model of \<^verbatim>\<open>metal/label_model/label_model.py\<close> works on three kinds of
  numbers.  Votes are Python/NumPy integers (\<open>int\<close>).  Counts and the weight \<open>l2\<close> are
  reals.  Every entry of a float array or tensor (the parameter matrix \<open>gamma\<close>, the
  accuracies, the loss, the overlaps matrix, the predictions) is an \<open>flt\<close>: a finite real,
  one of the two infinities, or NaN.  Arithmetic on \<open>flt\<close> is exact on finite values, so
  rounding is not part of the model, and follows IEEE 754 on the special values (signed
  zeros are not distinguished: a zero is a positive zero).
\<close>

datatype flt = Fin real | PInf | MInf | NaN

fun fneg :: "flt \<Rightarrow> flt" where
  "fneg (Fin a) = Fin (- a)"
| "fneg PInf = MInf"
| "fneg MInf = PInf"
| "fneg NaN = NaN"

fun fadd :: "flt \<Rightarrow> flt \<Rightarrow> flt" where
  "fadd NaN y = NaN"
| "fadd x NaN = NaN"
| "fadd (Fin a) (Fin b) = Fin (a + b)"
| "fadd (Fin a) PInf = PInf"
| "fadd (Fin a) MInf = MInf"
| "fadd PInf MInf = NaN"
| "fadd MInf PInf = NaN"
| "fadd PInf y = PInf"
| "fadd MInf y = MInf"

definition fsub :: "flt \<Rightarrow> flt \<Rightarrow> flt" where
  "fsub x y = fadd x (fneg y)"

text \<open>\<open>inf_signed pos\<close> is the infinity of the given sign.\<close>

definition inf_signed :: "bool \<Rightarrow> flt" where
  "inf_signed pos = (if pos then PInf else MInf)"

fun fmul :: "flt \<Rightarrow> flt \<Rightarrow> flt" where
  "fmul NaN y = NaN"
| "fmul x NaN = NaN"
| "fmul (Fin a) (Fin b) = Fin (a * b)"
| "fmul (Fin a) PInf = (if a = 0 then NaN else inf_signed (0 < a))"
| "fmul (Fin a) MInf = (if a = 0 then NaN else inf_signed (a < 0))"
| "fmul PInf (Fin b) = (if b = 0 then NaN else inf_signed (0 < b))"
| "fmul MInf (Fin b) = (if b = 0 then NaN else inf_signed (b < 0))"
| "fmul PInf PInf = PInf"
| "fmul PInf MInf = MInf"
| "fmul MInf PInf = MInf"
| "fmul MInf MInf = PInf"

fun fdiv :: "flt \<Rightarrow> flt \<Rightarrow> flt" where
  "fdiv NaN y = NaN"
| "fdiv x NaN = NaN"
| "fdiv (Fin a) (Fin b) =
     (if b \<noteq> 0 then Fin (a / b) else if a = 0 then NaN else inf_signed (0 < a))"
| "fdiv (Fin a) PInf = Fin 0"
| "fdiv (Fin a) MInf = Fin 0"
| "fdiv PInf (Fin b) = inf_signed (0 \<le> b)"
| "fdiv MInf (Fin b) = inf_signed (b < 0)"
| "fdiv PInf y = NaN"
| "fdiv MInf y = NaN"

fun flog :: "flt \<Rightarrow> flt" where
  "flog (Fin a) = (if 0 < a then Fin (ln a) else if a = 0 then MInf else NaN)"
| "flog PInf = PInf"
| "flog MInf = NaN"
| "flog NaN = NaN"

fun fexp :: "flt \<Rightarrow> flt" where
  "fexp (Fin a) = Fin (exp a)"
| "fexp PInf = PInf"
| "fexp MInf = Fin 0"
| "fexp NaN = NaN"

text \<open>
  \<^verbatim>\<open>torch.clamp(x, min=lo, max=hi)\<close> on one entry: \<open>min(max(x, lo), hi)\<close>, and a NaN stays a
  NaN.  \<open>fsq\<close> is \<^verbatim>\<open>x**2\<close>.
\<close>

fun fclamp :: "real \<Rightarrow> real \<Rightarrow> flt \<Rightarrow> flt" where
  "fclamp lo hi (Fin a) = Fin (min (max a lo) hi)"
| "fclamp lo hi PInf = Fin hi"
| "fclamp lo hi MInf = Fin lo"
| "fclamp lo hi NaN = NaN"

definition fsq :: "flt \<Rightarrow> flt" where
  "fsq x = fmul x x"

fun is_nan :: "flt \<Rightarrow> bool" where
  "is_nan NaN = True"
| "is_nan x = False"

text \<open>Summation of a row of floats, left to right from zero.\<close>

definition fsum :: "flt list \<Rightarrow> flt" where
  "fsum xs = foldl fadd (Fin 0) xs"

text \<open>
  The exceptions the code raises, as values.  \<open>NonUnipolar j t\<close> is the
  \<^verbatim>\<open>"LF {j} on task {t} is non-unipolar"\<close> exception; \<open>RowMismatch\<close>, \<open>NotSparse\<close>,
  \<open>WrongDtype\<close>, \<open>LabelMapNotInferable\<close> and \<open>CardinalityViolation\<close> are the exceptions of
  \<^verbatim>\<open>_check_L\<close>; \<open>AttrMismatch\<close> is the one of \<^verbatim>\<open>_check_or_set_attr\<close>; the others are
  Python's own (\<open>RuntimeError\<close> is what PyTorch raises on a shape mismatch).
\<close>

datatype exn =
    NonUnipolar nat nat
  | RowMismatch nat
  | NotSparse nat
  | WrongDtype nat
  | LabelMapNotInferable
  | CardinalityViolation nat
  | AttrMismatch string
  | AssertionError
  | AttributeError
  | IndexError
  | ZeroDivisionError
  | ValueError
  | TypeError
  | RuntimeError

text \<open>Sequencing of computations that may raise.\<close>

definition bnd :: "exn + 'a \<Rightarrow> ('a \<Rightarrow> exn + 'b) \<Rightarrow> exn + 'b" where
  "bnd m f = (case m of Inl e \<Rightarrow> Inl e | Inr x \<Rightarrow> f x)"

text \<open>Reading an attribute of the model object that may not have been set yet.\<close>

definition attr :: "'a option \<Rightarrow> exn + 'a" where
  "attr a = (case a of None \<Rightarrow> Inl AttributeError | Some x \<Rightarrow> Inr x)"

text \<open>Indexing a list with a non-negative index; Python raises when out of range.\<close>

definition idx :: "'a list \<Rightarrow> nat \<Rightarrow> exn + 'a" where
  "idx xs i = (if i < length xs then Inr (xs ! i) else Inl IndexError)"

text \<open>
  The part of \<^verbatim>\<open>self.config\<close> that the code of the label model reads:
  \<^verbatim>\<open>train_config['gamma_init']\<close>, \<^verbatim>\<open>train_config['l2']\<close> and
  \<^verbatim>\<open>train_config['n_epochs']\<close>.
\<close>

record config =
  cfg_gamma_init :: flt
  cfg_l2 :: real
  cfg_n_epochs :: nat

text \<open>
  The \<^verbatim>\<open>LabelModel\<close> object.  \<open>M\<close>, \<open>K_t\<close>, \<open>gamma_init\<close> and \<open>gamma\<close> do not exist
  before training sets them; \<open>label_map\<close> is \<open>None\<close> until given or inferred.
\<close>

record label_model =
  multitask :: bool
  conf :: config
  label_map :: "nat list list option"
  T :: nat
  M :: "nat option"
  K_t :: "nat list option"
  gamma_init :: "flt option"
  gamma :: "flt list list option"

section \<open>Derived accuracies\<close>

text \<open>
  \<^verbatim>\<open>accs\<close>: \<^verbatim>\<open>torch.clamp(0.5 * (self.gamma.data + 1), min=0.01, max=0.99)\<close>, entry by
  entry on the float parameter.
\<close>

definition accs_entry :: "flt \<Rightarrow> flt" where
  "accs_entry x = fclamp 0.01 0.99 (fmul (Fin 0.5) (fadd x (Fin 1)))"

definition accs :: "label_model \<Rightarrow> exn + flt list list" where
  "accs self = bnd (attr (gamma self)) (\<lambda>g. Inr (map (map accs_entry) g))"

text \<open>
  \<^verbatim>\<open>log_odds_accs\<close>: \<^verbatim>\<open>torch.log(self.accs / (1 - self.accs))\<close>.  The two reads of
  \<^verbatim>\<open>self.accs\<close> see the same \<open>gamma\<close>, so each entry is computed from one accuracy.  The
  subtraction, the division and the logarithm are the float operations: a NaN accuracy,
  a zero denominator or a non-positive argument shows as a NaN or an infinity in the
  result.
\<close>

definition log_odds_entry :: "flt \<Rightarrow> flt" where
  "log_odds_entry a = flog (fdiv a (fsub (Fin 1) a))"

definition log_odds_accs :: "label_model \<Rightarrow> exn + flt list list" where
  "log_odds_accs self = bnd (accs self) (\<lambda>a. Inr (map (map log_odds_entry) a))"

text \<open>
  Fitted single-task models with three sources, used as concrete instances: one with
  finite parameters, one whose parameters are an infinity, a NaN and a finite number.
\<close>

definition fitted3 :: label_model where
  "fitted3 = \<lparr> multitask = False,
      conf = \<lparr> cfg_gamma_init = Fin 0.8, cfg_l2 = 0, cfg_n_epochs = 1 \<rparr>,
      label_map = Some [[0, 1]], T = 1, M = Some 3, K_t = Some [2],
      gamma_init = Some (Fin 0.8), gamma = Some [[Fin 0.8, Fin (-5), Fin 3]] \<rparr>"

definition fitted_nan :: label_model where
  "fitted_nan = \<lparr> multitask = False,
      conf = \<lparr> cfg_gamma_init = Fin 0.8, cfg_l2 = 0, cfg_n_epochs = 1 \<rparr>,
      label_map = Some [[0, 1]], T = 1, M = Some 3, K_t = Some [2],
      gamma_init = Some (Fin 0.8), gamma = Some [[PInf, NaN, Fin 0.8]] \<rparr>"

section \<open>The loss of the parameter fitter\<close>

text \<open>\<^verbatim>\<open>A[i, j]\<close> on a two-dimensional tensor, with non-negative indices.\<close>

definition idx2 :: "'a list list \<Rightarrow> nat \<Rightarrow> nat \<Rightarrow> exn + 'a" where
  "idx2 A i j = bnd (idx A i) (\<lambda>row. idx row j)"

text \<open>
  One summand of \<^verbatim>\<open>_task_loss\<close>:
  \<^verbatim>\<open>(self.gamma[t,i] * self.gamma[t,j] - O_t[i,j])**2\<close>.
\<close>

definition pair_term :: "label_model \<Rightarrow> flt list list \<Rightarrow> nat \<Rightarrow> nat \<Rightarrow> nat \<Rightarrow> exn + flt" where
  "pair_term self O_t t i j =
     bnd (attr (gamma self)) (\<lambda>g.
     bnd (idx2 g t i) (\<lambda>a.
     bnd (idx2 g t j) (\<lambda>b.
     bnd (idx2 O_t i j) (\<lambda>ov. Inr (fsq (fsub (fmul a b) ov))))))"

text \<open>The inner loop \<^verbatim>\<open>for j in range(self.M)\<close> and the outer loop over \<open>i\<close>.\<close>

fun loss_loop_j :: "label_model \<Rightarrow> flt list list \<Rightarrow> nat \<Rightarrow> nat \<Rightarrow> nat list \<Rightarrow> flt \<Rightarrow> exn + flt" where
  "loss_loop_j self O_t t i [] loss = Inr loss"
| "loss_loop_j self O_t t i (j # js) loss =
     (if i \<noteq> j
      then bnd (pair_term self O_t t i j) (\<lambda>v. loss_loop_j self O_t t i js (fadd loss v))
      else loss_loop_j self O_t t i js loss)"

fun loss_loop_i :: "label_model \<Rightarrow> flt list list \<Rightarrow> nat \<Rightarrow> nat \<Rightarrow> nat list \<Rightarrow> flt \<Rightarrow> exn + flt" where
  "loss_loop_i self O_t t m [] loss = Inr loss"
| "loss_loop_i self O_t t m (i # is) loss =
     bnd (loss_loop_j self O_t t i [0..<m] loss) (\<lambda>l. loss_loop_i self O_t t m is l)"

text \<open>
  \<^verbatim>\<open>_task_loss(O_t, t, l2)\<close>.  With fewer than two sources no summand is added, \<open>loss\<close> is
  still the Python float \<open>0.0\<close> and the divisor \<^verbatim>\<open>self.M**2 - self.M\<close> is the integer \<open>0\<close>:
  the division raises.  The regulariser sums over the whole row \<^verbatim>\<open>self.gamma[t]\<close>.
\<close>

definition task_loss :: "label_model \<Rightarrow> flt list list \<Rightarrow> nat \<Rightarrow> real \<Rightarrow> exn + flt" where
  "task_loss self O_t t l2 =
     bnd (attr (M self)) (\<lambda>m.
     bnd (loss_loop_i self O_t t m [0..<m] (Fin 0)) (\<lambda>loss.
       if int m * int m - int m = 0 then Inl ZeroDivisionError
       else
         let loss' = fdiv loss (Fin (real_of_int (int m * int m - int m))) in
         if l2 > 0
         then bnd (attr (gamma self)) (\<lambda>g.
              bnd (idx g t) (\<lambda>row.
              bnd (attr (gamma_init self)) (\<lambda>gi.
                Inr (fadd loss' (fmul (Fin l2) (fsum (map (\<lambda>x. fsq (fsub x gi)) row)))))))
         else Inr loss'))"

text \<open>
  \<^verbatim>\<open>get_loss(O, l2)\<close>: the loop \<^verbatim>\<open>for t, O_t in enumerate(O): loss += ...\<close> from
  \<^verbatim>\<open>torch.tensor(0.0)\<close>.
\<close>

fun get_loss_loop :: "label_model \<Rightarrow> real \<Rightarrow> (nat \<times> flt list list) list \<Rightarrow> flt \<Rightarrow> exn + flt" where
  "get_loss_loop self l2 [] loss = Inr loss"
| "get_loss_loop self l2 ((t, O_t) # rest) loss =
     bnd (task_loss self O_t t l2) (\<lambda>v. get_loss_loop self l2 rest (fadd loss v))"

definition get_loss :: "label_model \<Rightarrow> flt list list list \<Rightarrow> real \<Rightarrow> exn + flt" where
  "get_loss self O_all l2 = get_loss_loop self l2 (enumerate 0 O_all) (Fin 0)"

text \<open>
  The loss as the specification words it, on real numbers: the sum over all ordered pairs
  \<open>(i, j)\<close> with \<open>i \<noteq> j\<close> of \<open>(gamma[t,i] * gamma[t,j] - O_t[i,j])\<^sup>2\<close>, divided by \<open>M\<^sup>2 - M\<close>,
  plus, when \<open>l2 > 0\<close>, \<open>l2\<close> times the sum over \<open>i\<close> of \<open>(gamma[t,i] - gamma_init)\<^sup>2\<close>.
\<close>

definition spec_task_loss :: "nat \<Rightarrow> real list list \<Rightarrow> real \<Rightarrow> real list list \<Rightarrow> nat \<Rightarrow> real \<Rightarrow> real" where
  "spec_task_loss m g gi O_t t l2 =
     (\<Sum>(i, j) \<in> Set.filter (\<lambda>(i, j). i \<noteq> j) ({..<m} \<times> {..<m}).
         (g ! t ! i * g ! t ! j - O_t ! i ! j)\<^sup>2) / (real m ^ 2 - real m)
     + (if l2 > 0 then l2 * (\<Sum>i<m. (g ! t ! i - gi)\<^sup>2) else 0)"

text \<open>
  The same formula in float arithmetic, for parameters and overlaps that may be infinite
  or NaN: the ordered pairs are listed, and the sums are float sums.
\<close>

definition ordered_pairs :: "nat \<Rightarrow> (nat \<times> nat) list" where
  "ordered_pairs m = concat (map (\<lambda>i. map (\<lambda>j. (i, j)) (filter (\<lambda>j. i \<noteq> j) [0..<m])) [0..<m])"

definition float_task_loss :: "nat \<Rightarrow> flt list list \<Rightarrow> flt \<Rightarrow> flt list list \<Rightarrow> nat \<Rightarrow> real \<Rightarrow> flt" where
  "float_task_loss m g gi O_t t l2 =
     (let s = fdiv (fsum (map (\<lambda>(i, j). fsq (fsub (fmul (g ! t ! i) (g ! t ! j)) (O_t ! i ! j)))
                           (ordered_pairs m)))
                   (Fin (real m ^ 2 - real m))
      in if l2 > 0 then fadd s (fmul (Fin l2) (fsum (map (\<lambda>i. fsq (fsub (g ! t ! i) gi)) [0..<m])))
         else s)"

text \<open>An \<open>m\<close> by \<open>m\<close> matrix, and the embedding of a real matrix into the floats.\<close>

definition square_mat :: "nat \<Rightarrow> 'a list list \<Rightarrow> bool" where
  "square_mat m A = (length A = m \<and> list_all (\<lambda>row. length row = m) A)"

definition fin_mat :: "real list list \<Rightarrow> flt list list" where
  "fin_mat A = map (map Fin) A"

text \<open>A fitted single-task model with two sources, and an overlaps matrix for it.\<close>

definition fitted2 :: label_model where
  "fitted2 = \<lparr> multitask = False,
      conf = \<lparr> cfg_gamma_init = Fin 0.8, cfg_l2 = 0.5, cfg_n_epochs = 1 \<rparr>,
      label_map = Some [[0, 1]], T = 1, M = Some 2, K_t = Some [2],
      gamma_init = Some (Fin 1), gamma = Some [[Fin 1, Fin 2]] \<rparr>"

definition overlaps2 :: "real list list" where
  "overlaps2 = [[0.95, 0.5], [0, 0.95]]"

section \<open>Vote matrices in compressed sparse column format\<close>

text \<open>
  A \<^verbatim>\<open>scipy.sparse.csc_matrix\<close> of integers: its shape \<open>(N, M)\<close> and the three arrays
  \<open>data\<close>, \<open>indices\<close> and \<open>indptr\<close>.  Column \<open>j\<close> owns the slots
  \<open>indptr[j] \<le> k < indptr[j+1]\<close>; slot \<open>k\<close> stores the value \<open>data[k]\<close> for row \<open>indices[k]\<close>.
  A stored value may be \<open>0\<close> (an explicit zero), and a column may store a row more than
  once (the entry of the matrix is then the sum of the stored values).
\<close>

record csc_matrix =
  nrows :: nat
  ncols :: nat
  data :: "int list"
  indices :: "nat list"
  indptr :: "nat list"

text \<open>What SciPy checks of the three arrays when it builds the matrix.\<close>

definition csc_valid :: "csc_matrix \<Rightarrow> bool" where
  "csc_valid L =
     (length (indptr L) = ncols L + 1 \<and> indptr L ! 0 = 0 \<and> sorted (indptr L) \<and>
      last (indptr L) = length (data L) \<and> length (indices L) = length (data L) \<and>
      list_all (\<lambda>r. r < nrows L) (indices L))"

text \<open>The slice \<^verbatim>\<open>xs[a:b]\<close> for non-negative bounds.\<close>

definition slice :: "'a list \<Rightarrow> nat \<Rightarrow> nat \<Rightarrow> 'a list" where
  "slice xs a b = drop a (take b xs)"

definition col_data :: "csc_matrix \<Rightarrow> nat \<Rightarrow> int list" where
  "col_data L j = slice (data L) (indptr L ! j) (indptr L ! (j + 1))"

definition col_indices :: "csc_matrix \<Rightarrow> nat \<Rightarrow> nat list" where
  "col_indices L j = slice (indices L) (indptr L ! j) (indptr L ! (j + 1))"

text \<open>
  The entry \<open>(n, j)\<close> of the matrix (what \<^verbatim>\<open>todense()\<close> shows), and the votes a source
  casts: the non-zero entries of its column, by row.
\<close>

definition entry :: "csc_matrix \<Rightarrow> nat \<Rightarrow> nat \<Rightarrow> int" where
  "entry L n j =
     sum_list (map snd (filter (\<lambda>p. fst p = n) (zip (col_indices L j) (col_data L j))))"

definition todense :: "csc_matrix \<Rightarrow> int list list" where
  "todense L = map (\<lambda>n. map (\<lambda>j. entry L n j) [0..<ncols L]) [0..<nrows L]"

definition votes :: "csc_matrix \<Rightarrow> nat \<Rightarrow> int list" where
  "votes L j = filter (\<lambda>v. v \<noteq> 0) (map (\<lambda>n. entry L n j) [0..<nrows L])"

text \<open>
  A column in canonical form without explicit zeros: no row is stored twice and no stored
  value is \<open>0\<close>.  This is what SciPy builds from a dense array.
\<close>

definition col_canonical :: "csc_matrix \<Rightarrow> nat \<Rightarrow> bool" where
  "col_canonical L j = (distinct (col_indices L j) \<and> 0 \<notin> set (col_data L j))"

section \<open>Polarity and overlaps estimator\<close>

text \<open>
  \<^verbatim>\<open>_infer_polarity(L_t, t, j)\<close>.  \<open>vals\<close> is the set of the values stored in column \<open>j\<close>,
  kept as a list without repetitions; \<^verbatim>\<open>list(vals)[0]\<close> is read only when there is exactly
  one.  Reading \<^verbatim>\<open>indptr[j+1]\<close> past the end of the array raises.
\<close>

definition infer_polarity :: "csc_matrix \<Rightarrow> nat \<Rightarrow> nat \<Rightarrow> exn + int" where
  "infer_polarity L_t t j =
     bnd (idx (indptr L_t) j) (\<lambda>a.
     bnd (idx (indptr L_t) (j + 1)) (\<lambda>b.
       let vals = remdups (slice (data L_t) a b) in
       if length vals > 1 then Inl (NonUnipolar j t)
       else if length vals = 0 then Inr 0
       else Inr (hd vals)))"

text \<open>The comprehension \<^verbatim>\<open>[self._infer_polarity(L_t, t, j) for j in range(self.M)]\<close>.\<close>

fun polarities :: "csc_matrix \<Rightarrow> nat \<Rightarrow> nat list \<Rightarrow> exn + int list" where
  "polarities L_t t [] = Inr []"
| "polarities L_t t (j # js) =
     bnd (infer_polarity L_t t j) (\<lambda>p.
     bnd (polarities L_t t js) (\<lambda>ps. Inr (p # ps)))"

text \<open>
  \<^verbatim>\<open>L_nz\<close> is \<open>L_t\<close> with every stored value set to \<open>1\<close>, so its entry \<open>(n, j)\<close> counts the
  slots of column \<open>j\<close> that store row \<open>n\<close>; \<open>gram L i j\<close> is the entry \<open>(i, j)\<close> of
  \<^verbatim>\<open>L_nz.T @ L_nz\<close>.
\<close>

definition nz_entry :: "csc_matrix \<Rightarrow> nat \<Rightarrow> nat \<Rightarrow> nat" where
  "nz_entry L n j = length (filter (\<lambda>r. r = n) (col_indices L j))"

definition gram :: "csc_matrix \<Rightarrow> nat \<Rightarrow> nat \<Rightarrow> nat" where
  "gram L i j = sum_list (map (\<lambda>n. nz_entry L n i * nz_entry L n j) [0..<nrows L])"

text \<open>\<^verbatim>\<open>np.diag(d)\<close> of a vector, and the matrix product \<^verbatim>\<open>A @ B\<close> of NumPy on floats.\<close>

definition diag_mat :: "flt list \<Rightarrow> flt list list" where
  "diag_mat d = map (\<lambda>i. map (\<lambda>k. if i = k then d ! i else Fin 0) [0..<length d]) [0..<length d]"

definition mat_mul :: "flt list list \<Rightarrow> flt list list \<Rightarrow> flt list list" where
  "mat_mul A B =
     map (\<lambda>i. map (\<lambda>j. fsum (map (\<lambda>k. fmul (A ! i ! k) (B ! k ! j)) [0..<length B]))
                 [0..<(case B of [] \<Rightarrow> 0 | r # _ \<Rightarrow> length r)])
         [0..<length A]"

text \<open>
  The matrix after \<^verbatim>\<open>O = B @ O @ B\<close>: the co-occurrence fractions
  \<^verbatim>\<open>L_nz.T @ L_nz / N\<close>, made dense, with the propensities \<open>beta = diag(O)\<close> divided out.
  \<open>1 / beta\<close> is NumPy's float division: it is infinite where a source never votes.
\<close>

definition cooccurrence :: "csc_matrix \<Rightarrow> flt list list" where
  "cooccurrence L =
     map (\<lambda>i. map (\<lambda>j. Fin (real (gram L i j) / real (nrows L))) [0..<ncols L]) [0..<ncols L]"

definition normalized_overlaps :: "csc_matrix \<Rightarrow> flt list list" where
  "normalized_overlaps L =
     (let Oc = cooccurrence L;
          B = diag_mat (map (\<lambda>i. fdiv (Fin 1) (Oc ! i ! i)) [0..<length Oc])
      in mat_mul (mat_mul B Oc) B)"

text \<open>
  The two loops over \<^verbatim>\<open>range(self.M)\<close> that correct the off-diagonal entries: each cell
  \<open>(i, j)\<close> with \<open>i \<noteq> j\<close> is overwritten once, from its own old value, by
  \<^verbatim>\<open>c * (O[i,j] - 1)\<close> with \<open>c = 1\<close> if \<open>p[i] = p[j]\<close> and \<open>-1\<close> otherwise.
\<close>

definition correct_polarity :: "int list \<Rightarrow> nat \<Rightarrow> flt list list \<Rightarrow> flt list list" where
  "correct_polarity p ms Ov =
     map (\<lambda>(i, row). map (\<lambda>(j, x).
            if i < ms \<and> j < ms \<and> i \<noteq> j
            then fmul (Fin (if p ! i = p ! j then 1 else -1)) (fsub x (Fin 1))
            else x) (enumerate 0 row)) (enumerate 0 Ov)"

text \<open>\<^verbatim>\<open>O[np.isnan(O)] = 0\<close> on one entry.\<close>

definition nan_to_zero :: "flt \<Rightarrow> flt" where
  "nan_to_zero x = (if is_nan x then Fin 0 else x)"

text \<open>
  \<^verbatim>\<open>_get_overlaps_matrix(L_t, t)\<close>.  The polarities are inferred first, so a non-unipolar
  source is reported before anything is computed.  Dividing the sparse product by
  \<open>N = 0\<close> raises in SciPy (it multiplies by \<^verbatim>\<open>1./N\<close>).  The loops run over
  \<^verbatim>\<open>range(self.M)\<close> and index the \<open>M\<close> by \<open>M\<close> matrix of the shape of \<open>L_t\<close>.
\<close>

definition get_overlaps_matrix :: "label_model \<Rightarrow> csc_matrix \<Rightarrow> nat \<Rightarrow> exn + flt list list" where
  "get_overlaps_matrix self L_t t =
     bnd (attr (M self)) (\<lambda>ms.
     bnd (polarities L_t t [0..<ms]) (\<lambda>p.
       if nrows L_t = 0 then Inl ZeroDivisionError
       else if ncols L_t < ms then Inl IndexError
       else Inr (map (map (\<lambda>x. fclamp (-0.95) 0.95 (nan_to_zero x)))
                   (correct_polarity p ms (normalized_overlaps L_t)))))"

text \<open>
  Every column stores at most one distinct value: the inputs on which
  \<^verbatim>\<open>_infer_polarity\<close> does not raise the non-unipolar exception.
\<close>

definition unipolar :: "csc_matrix \<Rightarrow> bool" where
  "unipolar L = list_all (\<lambda>j. length (remdups (col_data L j)) \<le> 1) [0..<ncols L]"

text \<open>The entries an overlaps matrix may have: finite and within \<open>[-0.95, 0.95]\<close>.\<close>

fun in_clamp_range :: "flt \<Rightarrow> bool" where
  "in_clamp_range (Fin a) = (-0.95 \<le> a \<and> a \<le> 0.95)"
| "in_clamp_range x = False"

text \<open>
  Votes as the vote matrix shows them: source \<open>j\<close> casts a vote on data point \<open>n\<close> when the
  entry \<open>(n, j)\<close> is not zero; sources \<open>i\<close> and \<open>j\<close> never co-occur when there is no data point
  on which both cast a vote; source \<open>j\<close> never votes when it casts no vote on any data
  point.
\<close>

definition casts_vote :: "csc_matrix \<Rightarrow> nat \<Rightarrow> nat \<Rightarrow> bool" where
  "casts_vote L n j = (entry L n j \<noteq> 0)"

definition never_cooccur :: "csc_matrix \<Rightarrow> nat \<Rightarrow> nat \<Rightarrow> bool" where
  "never_cooccur L i j =
     list_all (\<lambda>n. \<not> (casts_vote L n i \<and> casts_vote L n j)) [0..<nrows L]"

definition never_votes :: "csc_matrix \<Rightarrow> nat \<Rightarrow> bool" where
  "never_votes L j = list_all (\<lambda>n. \<not> casts_vote L n j) [0..<nrows L]"

text \<open>
  Concrete vote matrices.  \<open>votes_disjoint\<close>: two data points, two sources, source 0 votes
  class 1 on point 0 and source 1 votes class 1 on point 1.  \<open>votes_mixed\<close>: three points and
  three sources; source 0 votes 1 on points 0 and 1, source 1 votes 2 on point 1, source
  2 never votes.  \<open>votes_explicit_zero\<close>: one source, storing an explicit \<open>0\<close> for point 0 and
  the vote 2 for point 1.  \<open>votes_bipolar\<close>: two sources; source 0 votes 1 on point 0 and 2 on
  point 1, source 1 votes 1 on point 0.
\<close>

definition votes_disjoint :: csc_matrix where
  "votes_disjoint = \<lparr> nrows = 2, ncols = 2, data = [1, 1], indices = [0, 1], indptr = [0, 1, 2] \<rparr>"

definition votes_mixed :: csc_matrix where
  "votes_mixed = \<lparr> nrows = 3, ncols = 3, data = [1, 1, 2], indices = [0, 1, 1],
                    indptr = [0, 2, 3, 3] \<rparr>"



section \<open>Input validation\<close>

text \<open>
  What \<^verbatim>\<open>_check_L\<close> can be handed for one task: a two-dimensional array object with its
  shape and entries (held in CSC form, which is what \<^verbatim>\<open>tocsc()\<close> returns), whether it is a
  SciPy sparse matrix, and whether its dtype is \<^verbatim>\<open>int\<close>.  The argument \<open>L\<close> is one such
  object or a list of them.
\<close>

record array_input =
  is_sparse :: bool
  dtype_int :: bool
  mat :: csc_matrix

datatype L_arg = One array_input | Many "array_input list"

text \<open>
  Modelled from the spec: \<^verbatim>\<open>_check_or_set_attr(name, val, set_val)\<close> is a method of the base
  classifier, which is not part of the source.  By its name, its uses and the docstring of
  \<^verbatim>\<open>_check_L\<close> ("if True, initialize ...; else check against these") it sets the attribute
  to \<open>val\<close> when \<open>set_val\<close> holds and otherwise raises unless the attribute has the value
  \<open>val\<close>.  The result is the attribute after the call.
\<close>

definition check_or_set_attr :: "string \<Rightarrow> 'a option \<Rightarrow> 'a \<Rightarrow> bool \<Rightarrow> exn + 'a option" where
  "check_or_set_attr name cur val set_val =
     (if set_val then Inr (Some val)
      else case cur of
             None \<Rightarrow> Inl AttributeError
           | Some v \<Rightarrow> if val \<noteq> v then Inl (AttrMismatch name) else Inr cur)"

text \<open>
  \<^verbatim>\<open>np.amax(L_t)\<close> on a sparse matrix: the largest entry, implicit zeros included; an empty
  matrix raises.
\<close>

definition amax :: "csc_matrix \<Rightarrow> exn + int" where
  "amax L = (if nrows L = 0 \<or> ncols L = 0 then Inl ValueError
             else Inr (Max (set (concat (todense L)))))"

text \<open>
  The first lines of \<^verbatim>\<open>_check_L\<close>: the assertions, and a single matrix made a singleton
  list.
\<close>

definition as_task_list :: "label_model \<Rightarrow> L_arg \<Rightarrow> exn + array_input list" where
  "as_task_list self L =
     (if multitask self
      then (case L of
              One a \<Rightarrow> Inl AssertionError
            | Many [] \<Rightarrow> Inl IndexError
            | Many (a # as) \<Rightarrow> if is_sparse a then Inr (a # as) else Inl AssertionError)
      else (case L of
              One a \<Rightarrow> if is_sparse a then Inr [a] else Inl AssertionError
            | Many as \<Rightarrow> Inr as))"

text \<open>
  The loop that checks the format and dimensions of the task matrices and converts them
  to CSC; \<open>n\<close> is the number of rows of the first matrix.
\<close>

fun check_tasks :: "label_model \<Rightarrow> nat \<Rightarrow> (nat \<times> array_input) list \<Rightarrow> exn + csc_matrix list" where
  "check_tasks self n [] = Inr []"
| "check_tasks self n ((t, L_t) # rest) =
     bnd (check_or_set_attr ''M'' (M self) (ncols (mat L_t)) False) (\<lambda>_.
       if nrows (mat L_t) \<noteq> n then Inl (RowMismatch t)
       else if \<not> is_sparse L_t then Inl (NotSparse t)
       else if \<not> dtype_int L_t then Inl (WrongDtype t)
       else bnd (check_tasks self n rest) (\<lambda>Ls. Inr (mat L_t # Ls)))"

text \<open>
  The loop that checks the votes against the cardinalities:
  \<^verbatim>\<open>if np.amax(L_t) > self.K_t[t]: raise\<close>.
\<close>

fun check_cardinalities :: "nat list \<Rightarrow> (nat \<times> csc_matrix) list \<Rightarrow> exn + unit" where
  "check_cardinalities ks [] = Inr ()"
| "check_cardinalities ks ((t, L_t) # rest) =
     bnd (amax L_t) (\<lambda>a.
     bnd (idx ks t) (\<lambda>k.
       if a > int k then Inl (CardinalityViolation t)
       else check_cardinalities ks rest))"

text \<open>
  \<^verbatim>\<open>_check_L(L, init)\<close>.  The result is what the call returns or raises, together with the
  model object as the call leaves it: \<open>M\<close>, \<open>label_map\<close> and \<open>K_t\<close> are assigned on the way
  when \<open>init\<close> holds, before the later checks.  Reading the labels of a \<open>label_map\<close> that is
  \<open>None\<close> raises a \<open>TypeError\<close>.
\<close>

definition check_L :: "label_model \<Rightarrow> L_arg \<Rightarrow> bool \<Rightarrow> (exn + csc_matrix list) \<times> label_model" where
  "check_L self L init =
     (case as_task_list self L of
        Inl e \<Rightarrow> (Inl e, self)
      | Inr Ls \<Rightarrow>
        if length Ls \<noteq> T self then (Inl (AttrMismatch ''T''), self)
        else (case Ls of
          [] \<Rightarrow> (Inl IndexError, self)
        | L0 # _ \<Rightarrow>
          (case check_or_set_attr ''M'' (M self) (ncols (mat L0)) init of
             Inl e \<Rightarrow> (Inl e, self)
           | Inr m' \<Rightarrow>
             let self1 = self\<lparr>M := m'\<rparr> in
             (case check_tasks self1 (nrows (mat L0)) (enumerate 0 Ls) of
                Inl e \<Rightarrow> (Inl e, self1)
              | Inr Lc \<Rightarrow>
                (case (if label_map self1 = None \<and> init
                       then (if T self1 > 1 then Inl LabelMapNotInferable
                             else bnd (amax (Lc ! 0)) (\<lambda>K.
                                    Inr (self1\<lparr>label_map := Some [[0..<nat K]]\<rparr>)))
                       else Inr self1) of
                   Inl e \<Rightarrow> (Inl e, self1)
                 | Inr self2 \<Rightarrow>
                   (case label_map self2 of
                      None \<Rightarrow> (Inl TypeError, self2)
                    | Some lm \<Rightarrow>
                      (case check_or_set_attr ''K_t'' (K_t self2) (map length lm) init of
                         Inl e \<Rightarrow> (Inl e, self2)
                       | Inr k' \<Rightarrow>
                         let self3 = self2\<lparr>K_t := k'\<rparr> in
                         (case bnd (attr (K_t self3)) (\<lambda>ks.
                                 check_cardinalities ks (enumerate 0 Lc)) of
                            Inl e \<Rightarrow> (Inl e, self3)
                          | Inr _ \<Rightarrow> (Inr Lc, self3)))))))))"

section \<open>Posterior predictor\<close>

text \<open>
  The two \<^verbatim>\<open>torch.where\<close> steps on one vote \<open>v\<close> for the candidate class \<open>y\<close>: a vote that is
  neither \<open>y\<close> nor \<open>0\<close> becomes \<open>-1\<close>; then a value equal to \<open>y\<close> becomes \<open>1\<close>.
\<close>

definition vote_sign :: "int \<Rightarrow> int \<Rightarrow> int" where
  "vote_sign v y =
     (let s1 = (if v \<noteq> y \<and> v \<noteq> 0 then -1 else v)
      in if s1 = y then 1 else s1)"

text \<open>The product of a row with the weight vector, and \<^verbatim>\<open>F.softmax\<close> of one row.\<close>

definition dot :: "flt list \<Rightarrow> flt list \<Rightarrow> flt" where
  "dot xs ws = fsum (map (\<lambda>(x, w). fmul x w) (zip xs ws))"

definition softmax_row :: "flt list \<Rightarrow> flt list" where
  "softmax_row xs = map (\<lambda>x. fdiv (fexp x) (fsum (map fexp xs))) xs"

text \<open>
  \<^verbatim>\<open>predict_task_proba(L, t)\<close>.  Column \<open>y - 1\<close> of \<open>Y_pt\<close>, for \<open>y\<close> from 1 to \<open>K_t[t]\<close>, is the
  product of the signed votes with \<^verbatim>\<open>self.log_odds_accs[t]\<close>; each column is written once.
  With no class the loop does not run and the weights are not read.  The product raises
  when the weight vector does not have \<open>self.M\<close> entries.
\<close>

definition predict_task_proba :: "label_model \<Rightarrow> L_arg \<Rightarrow> nat \<Rightarrow> exn + flt list list" where
  "predict_task_proba self L t =
     (case check_L self L False of
        (Inl e, _) \<Rightarrow> Inl e
      | (Inr Ls, self') \<Rightarrow>
        bnd (idx Ls t) (\<lambda>L_t.
        bnd (attr (K_t self')) (\<lambda>ks.
        bnd (idx ks t) (\<lambda>k.
          if k = 0 then Inr (map (\<lambda>row. softmax_row []) (todense L_t))
          else
            bnd (attr (M self')) (\<lambda>m.
            bnd (log_odds_accs self') (\<lambda>lo.
            bnd (idx lo t) (\<lambda>w.
              if length w \<noteq> m then Inl RuntimeError
              else Inr (map (\<lambda>row. softmax_row
                              (map (\<lambda>y. dot (map (\<lambda>v. Fin (of_int (vote_sign v (int y)))) row) w)
                                   [1..<k + 1]))
                            (todense L_t)))))))))"

text \<open>The vote matrix \<open>votes_mixed\<close> as an argument of the public methods.\<close>

definition input_mixed :: L_arg where
  "input_mixed = One \<lparr> is_sparse = True, dtype_int = True, mat = votes_mixed \<rparr>"

section \<open>Polarity inference\<close>

lemma slice_lengths:
  assumes "length xs = length ys"
  shows "length (slice xs a b) = length (slice ys a b)"
  using assms by (simp add: slice_def)

lemma set_slice: "set (slice xs a b) \<subseteq> set xs"
  unfolding slice_def by (meson set_drop_subset set_take_subset subset_trans)

lemma col_lengths:
  "csc_valid L \<Longrightarrow> length (col_indices L j) = length (col_data L j)"
  by (simp add: csc_valid_def col_indices_def col_data_def slice_def)


lemma infer_polarity_valid:
  assumes "csc_valid L" "j < ncols L"
  shows "infer_polarity L t j =
     (if length (remdups (col_data L j)) > 1 then Inl (NonUnipolar j t)
      else if col_data L j = [] then Inr 0
      else Inr (hd (remdups (col_data L j))))"
  using assms
  by (simp add: infer_polarity_def csc_valid_def idx_def bnd_def col_data_def Let_def)

lemma sum_filter_key:
  assumes "distinct (map fst ps)"
  shows "sum_list (map snd (filter (\<lambda>p. fst p = n) ps))
       = (case map_of ps n of None \<Rightarrow> (0::int) | Some v \<Rightarrow> v)"
  using assms
proof (induction ps)
  case Nil
  then show ?case by simp
next
  case (Cons p ps)
  obtain r v where p: "p = (r, v)" by (cases p)
  show ?case
  proof (cases "r = n")
    case True
    then have "n \<notin> fst ` set ps" using Cons.prems p by auto
    then have "filter (\<lambda>p. fst p = n) ps = []" by (auto simp: filter_empty_conv)
    then show ?thesis using True p by simp
  next
    case False
    then show ?thesis using Cons p by simp
  qed
qed

lemma entry_canonical:
  assumes "csc_valid L" "distinct (col_indices L j)"
  shows "entry L n j =
     (case map_of (zip (col_indices L j) (col_data L j)) n of None \<Rightarrow> 0 | Some v \<Rightarrow> v)"
proof -
  have "map fst (zip (col_indices L j) (col_data L j)) = col_indices L j"
    using col_lengths [OF assms(1)] by simp
  then have "distinct (map fst (zip (col_indices L j) (col_data L j)))"
    using assms(2) by simp
  from sum_filter_key [OF this] show ?thesis by (simp add: entry_def)
qed





lemma votes_mixed_facts:
  "csc_valid votes_mixed" "col_canonical votes_mixed 1" "col_canonical votes_mixed 2"
  "set (votes votes_mixed 1) = {2}" "set (votes votes_mixed 2) = {}"
  by code_simp+




lemma polarities_valid:
  assumes "csc_valid L" "set js \<subseteq> {..<ncols L}"
  shows "polarities L t js =
     (case find (\<lambda>j. length (remdups (col_data L j)) > 1) js of
        Some j \<Rightarrow> Inl (NonUnipolar j t)
      | None \<Rightarrow> Inr (map (\<lambda>j. if col_data L j = [] then 0 else hd (remdups (col_data L j))) js))"
  using assms(2)
proof (induction js)
  case Nil
  then show ?case by simp
next
  case (Cons j js)
  then have j: "j < ncols L" and js: "set js \<subseteq> {..<ncols L}" by simp_all
  show ?case
    using Cons.IH [OF js]
    by (simp add: infer_polarity_valid [OF assms(1) j] bnd_def split: option.splits)
qed






section \<open>The overlaps matrix\<close>

lemma fadd_zero_right: "fadd x (Fin 0) = x"
  by (cases x) simp_all

lemma fadd_zero_left: "fadd (Fin 0) x = x"
  by (cases x) simp_all

lemma fadd_nan_right: "fadd x NaN = NaN"
  by (cases x) simp_all

lemma foldl_fadd_zeros:
  "\<forall>x \<in> set xs. x = Fin 0 \<Longrightarrow> foldl fadd a xs = a"
  by (induction xs arbitrary: a) (simp_all add: fadd_zero_right)

lemma foldl_fadd_nan: "foldl fadd NaN xs = NaN"
  by (induction xs) simp_all

lemma fsum_nan: "NaN \<in> set xs \<Longrightarrow> fsum xs = NaN"
proof -
  assume "NaN \<in> set xs"
  then obtain ys zs where "xs = ys @ NaN # zs" by (auto simp: in_set_conv_decomp)
  then show ?thesis by (simp add: fsum_def fadd_nan_right foldl_fadd_nan)
qed

lemma fsum_single:
  assumes "i < n" "\<forall>k<n. k \<noteq> i \<longrightarrow> f k = Fin 0"
  shows "fsum (map f [0..<n]) = f i"
proof -
  have sp: "[0..<n] = [0..<i] @ i # [Suc i..<n]"
  proof -
    have "[0..<i + (n - i)] = [0..<i] @ [i..<i + (n - i)]"
      by (rule upt_add_eq_append) simp
    moreover have "i + (n - i) = n" using assms(1) by simp
    moreover have "[i..<n] = i # [Suc i..<n]" using assms(1) by (rule upt_conv_Cons)
    ultimately show ?thesis by simp
  qed
  have a: "\<forall>x \<in> set (map f [0..<i]). x = Fin 0" using assms by auto
  have b: "\<forall>x \<in> set (map f [Suc i..<n]). x = Fin 0" using assms by auto
  show ?thesis
    unfolding fsum_def sp
    by (simp add: foldl_fadd_zeros [OF a] foldl_fadd_zeros [OF b] fadd_zero_left del: upt_Suc)
qed

lemma mat_cols_upt:
  "0 < m \<Longrightarrow> (case map f [0..<m] of [] \<Rightarrow> 0 | r # _ \<Rightarrow> length r) = length (f 0)"
  by (simp add: upt_conv_Cons)

lemma mat_mul_entry:
  assumes "i < length A" "B = map f [0..<m]" "\<forall>k<m. length (f k) = m" "j < m"
  shows "mat_mul A B ! i ! j = fsum (map (\<lambda>k. fmul (A ! i ! k) (B ! k ! j)) [0..<m])"
proof -
  have m: "0 < m" using assms(4) by simp
  have "(case B of [] \<Rightarrow> 0 | r # _ \<Rightarrow> length r) = m"
    unfolding assms(2) mat_cols_upt [OF m] using assms(3) m by simp
  moreover have "length B = m" using assms(2) by simp
  ultimately show ?thesis using assms(1,4) by (simp add: mat_mul_def)
qed

lemma mat_mul_length: "length (mat_mul A B) = length A"
  by (simp add: mat_mul_def)

lemma mat_mul_row_length:
  assumes "i < length A" "B = map f [0..<m]" "\<forall>k<m. length (f k) = m" "0 < m"
  shows "length (mat_mul A B ! i) = m"
proof -
  have "(case B of [] \<Rightarrow> 0 | r # _ \<Rightarrow> length r) = m"
    unfolding assms(2) mat_cols_upt [OF assms(4)] using assms(3,4) by simp
  then show ?thesis using assms(1) by (simp add: mat_mul_def)
qed


lemma gram_diag_zero:
  assumes "gram L i i = 0"
  shows "gram L i j = 0" "gram L j i = 0"
proof -
  have z: "\<forall>n \<in> set [0..<nrows L]. nz_entry L n i = 0"
    using assms by (auto simp: gram_def)
  show "gram L i j = 0" using z by (auto simp: gram_def)
  show "gram L j i = 0" using z by (auto simp: gram_def)
qed

lemma gram_sym: "gram L i j = gram L j i"
  by (simp add: gram_def mult.commute)

lemma gram_pos:
  assumes "csc_valid L" "col_indices L i \<noteq> []"
  shows "0 < gram L i i"
proof -
  obtain r where r: "r \<in> set (col_indices L i)" using assms(2) by (cases "col_indices L i") auto
  have rn: "r < nrows L"
    using assms(1) r set_slice [of "indices L"]
    by (auto simp: csc_valid_def col_indices_def list_all_iff)
  have "filter (\<lambda>x. x = r) (col_indices L i) \<noteq> []"
    using r by (simp add: filter_empty_conv)
  then have p: "0 < nz_entry L r i" by (simp add: nz_entry_def)
  let ?f = "\<lambda>n. nz_entry L n i * nz_entry L n i"
  have "r \<in> set [0..<nrows L]" using rn by simp
  then have "?f r \<in> ?f ` set [0..<nrows L]" by (rule imageI)
  then have "?f r \<in> set (map ?f [0..<nrows L])" by (simp only: set_map)
  then have "?f r \<le> sum_list (map ?f [0..<nrows L])" by (rule member_le_sum_list) simp
  moreover have "0 < ?f r" using p by simp
  ultimately show ?thesis unfolding gram_def by linarith
qed

lemma nz_entry_distinct:
  assumes "distinct (col_indices L i)"
  shows "nz_entry L n i \<le> 1"
proof -
  have "distinct (filter (\<lambda>r. r = n) (col_indices L i))" using assms by simp
  moreover have "set (filter (\<lambda>r. r = n) (col_indices L i)) \<subseteq> {n}" by auto
  ultimately have "length (filter (\<lambda>r. r = n) (col_indices L i)) \<le> card {n}"
    by (metis card_mono distinct_card finite.emptyI finite.insertI)
  then show ?thesis by (simp add: nz_entry_def)
qed

lemma sum_list_le_length:
  "\<forall>x \<in> set xs. f x \<le> (1::nat) \<Longrightarrow> sum_list (map f xs) \<le> length xs"
  by (induction xs) auto

lemma gram_le_nrows:
  assumes "distinct (col_indices L i)"
  shows "gram L i i \<le> nrows L"
proof -
  have "\<forall>n \<in> set [0..<nrows L]. nz_entry L n i * nz_entry L n i \<le> 1"
  proof
    fix n
    have "nz_entry L n i \<le> 1" by (rule nz_entry_distinct [OF assms])
    then have "nz_entry L n i = 0 \<or> nz_entry L n i = 1" by auto
    then show "nz_entry L n i * nz_entry L n i \<le> 1" by auto
  qed
  from sum_list_le_length [OF this] show ?thesis by (simp add: gram_def)
qed

lemma cooccurrence_entry:
  "i < ncols L \<Longrightarrow> j < ncols L \<Longrightarrow>
   cooccurrence L ! i ! j = Fin (real (gram L i j) / real (nrows L))"
  by (simp add: cooccurrence_def)

lemma diag_mat_entry:
  "a < length d \<Longrightarrow> b < length d \<Longrightarrow> diag_mat d ! a ! b = (if a = b then d ! a else Fin 0)"
  by (simp add: diag_mat_def)

lemma diag_mat_shape: "length (diag_mat d) = length d"
  by (simp add: diag_mat_def)

lemma diag_mul_left:
  assumes "X = map (\<lambda>i. map (\<lambda>j. Fin (c i j)) [0..<m]) [0..<m]" "length d = m" "i < m" "j < m"
  shows "mat_mul (diag_mat d) X ! i ! j = fmul (d ! i) (Fin (c i j))"
proof -
  have e: "mat_mul (diag_mat d) X ! i ! j
      = fsum (map (\<lambda>k. fmul (diag_mat d ! i ! k) (X ! k ! j)) [0..<m])"
  proof (rule mat_mul_entry [where f = "\<lambda>i. map (\<lambda>j. Fin (c i j)) [0..<m]"])
    show "i < length (diag_mat d)" using assms(2,3) by (simp add: diag_mat_shape)
    show "X = map (\<lambda>i. map (\<lambda>j. Fin (c i j)) [0..<m]) [0..<m]" by (rule assms(1))
    show "\<forall>k<m. length (map (\<lambda>j. Fin (c k j)) [0..<m]) = m" by simp
    show "j < m" by (rule assms(4))
  qed
  have X: "X ! k ! j = Fin (c k j)" if "k < m" for k
    using that assms(4) unfolding assms(1) by simp
  have z: "\<forall>k<m. k \<noteq> i \<longrightarrow> fmul (diag_mat d ! i ! k) (X ! k ! j) = Fin 0"
  proof (intro allI impI)
    fix k assume k: "k < m" "k \<noteq> i"
    have "diag_mat d ! i ! k = Fin 0"
      using k assms(2,3) diag_mat_entry [of i d k] by simp
    then show "fmul (diag_mat d ! i ! k) (X ! k ! j) = Fin 0" using X [OF k(1)] by simp
  qed
  have "diag_mat d ! i ! i = d ! i" using assms(2,3) diag_mat_entry [of i d i] by simp
  then have "fmul (diag_mat d ! i ! i) (X ! i ! j) = fmul (d ! i) (Fin (c i j))"
    using X [OF assms(3)] by simp
  with fsum_single [OF assms(3) z] e show ?thesis by simp
qed

lemma diag_mul_right:
  assumes "i < length Y" "length d = m" "j < m"
  shows "mat_mul Y (diag_mat d) ! i ! j = fsum (map (\<lambda>k. fmul (Y ! i ! k) (diag_mat d ! k ! j)) [0..<m])"
proof (rule mat_mul_entry [where f = "\<lambda>i. map (\<lambda>k. if i = k then d ! i else Fin 0) [0..<m]"])
  show "i < length Y" by (rule assms(1))
  show "diag_mat d = map (\<lambda>i. map (\<lambda>k. if i = k then d ! i else Fin 0) [0..<m]) [0..<m]"
    using assms(2) by (simp add: diag_mat_def)
  show "\<forall>k<m. length (map (\<lambda>ka. if k = ka then d ! k else Fin 0) [0..<m]) = m" by simp
  show "j < m" by (rule assms(3))
qed

lemma diag_mul_right_fin:
  assumes "i < length Y" "length d = m" "j < m" "\<forall>k<m. \<exists>r. Y ! i ! k = Fin r"
  shows "mat_mul Y (diag_mat d) ! i ! j = fmul (Y ! i ! j) (d ! j)"
proof -
  have z: "\<forall>k<m. k \<noteq> j \<longrightarrow> fmul (Y ! i ! k) (diag_mat d ! k ! j) = Fin 0"
  proof (intro allI impI)
    fix k assume k: "k < m" "k \<noteq> j"
    have "diag_mat d ! k ! j = Fin 0"
      using k assms(2,3) diag_mat_entry [of k d j] by simp
    moreover obtain r where "Y ! i ! k = Fin r" using assms(4) k(1) by blast
    ultimately show "fmul (Y ! i ! k) (diag_mat d ! k ! j) = Fin 0" by simp
  qed
  have "diag_mat d ! j ! j = d ! j" using assms(2,3) diag_mat_entry [of j d j] by simp
  with fsum_single [OF assms(3) z] diag_mul_right [OF assms(1-3)] show ?thesis by simp
qed

lemma diag_mul_right_nan:
  assumes "i < length Y" "length d = m" "j < m" "Y ! i ! j = NaN"
  shows "mat_mul Y (diag_mat d) ! i ! j = NaN"
proof -
  let ?f = "\<lambda>k. fmul (Y ! i ! k) (diag_mat d ! k ! j)"
  have "?f j = NaN" using assms(4) by simp
  moreover have "j \<in> set [0..<m]" using assms(3) by simp
  then have "?f j \<in> ?f ` set [0..<m]" by (rule imageI)
  ultimately have "NaN \<in> set (map ?f [0..<m])" by (simp only: set_map)
  from fsum_nan [OF this] diag_mul_right [OF assms(1-3)] show ?thesis by simp
qed


lemma recip_propensity:
  assumes "0 < nrows L" "a < ncols L"
  shows "fdiv (Fin 1) (cooccurrence L ! a ! a)
       = (if gram L a a = 0 then PInf else Fin (real (nrows L) / real (gram L a a)))"
  using assms by (simp add: cooccurrence_entry inf_signed_def)

lemma normalized_overlaps_entry:
  assumes "0 < nrows L" "i < ncols L" "j < ncols L"
  shows "normalized_overlaps L ! i ! j =
     (if gram L i i = 0 \<or> gram L j j = 0 then NaN
      else Fin (real (gram L i j) * real (nrows L) / (real (gram L i i) * real (gram L j j))))"
proof -
  define m where "m = ncols L"
  define c where "c = (\<lambda>i j. real (gram L i j) / real (nrows L))"
  define d where "d = map (\<lambda>i. fdiv (Fin 1) (cooccurrence L ! i ! i)) [0..<length (cooccurrence L)]"
  define BO where "BO = mat_mul (diag_mat d) (cooccurrence L)"
  have im: "i < m" and jm: "j < m" using assms by (simp_all add: m_def)
  have Oc: "cooccurrence L = map (\<lambda>i. map (\<lambda>j. Fin (c i j)) [0..<m]) [0..<m]"
    by (simp add: cooccurrence_def c_def m_def)
  have lend: "length d = m" by (simp add: d_def Oc)
  have d_e: "d ! a = (if gram L a a = 0 then PInf else Fin (real (nrows L) / real (gram L a a)))"
    if "a < m" for a
  proof -
    have "d ! a = fdiv (Fin 1) (cooccurrence L ! a ! a)"
      using that by (simp add: d_def Oc)
    then show ?thesis using recip_propensity [OF assms(1), of a] that by (simp add: m_def)
  qed
  have BO_e: "BO ! a ! b = fmul (d ! a) (Fin (c a b))" if "a < m" "b < m" for a b
    unfolding BO_def by (rule diag_mul_left [OF Oc lend that])
  have lenBO: "length BO = m"
    by (simp add: BO_def mat_mul_length diag_mat_shape lend)
  have nE: "normalized_overlaps L = mat_mul BO (diag_mat d)"
    by (simp add: normalized_overlaps_def Let_def BO_def d_def)
  have ipos: "i < length BO" using im lenBO by simp
  show ?thesis
  proof (cases "gram L i i = 0")
    case True
    then have "c i j = 0" using gram_diag_zero(1) [OF True, of j] by (simp add: c_def)
    then have "BO ! i ! j = NaN" using True d_e [OF im] BO_e [OF im jm] by simp
    from diag_mul_right_nan [OF ipos lend jm this] show ?thesis using True nE by simp
  next
    case False
    have fin: "\<forall>k<m. \<exists>r. BO ! i ! k = Fin r"
    proof (intro allI impI)
      fix k assume "k < m"
      from BO_e [OF im this] d_e [OF im] False show "\<exists>r. BO ! i ! k = Fin r" by simp
    qed
    from diag_mul_right_fin [OF ipos lend jm fin]
    have s: "normalized_overlaps L ! i ! j = fmul (BO ! i ! j) (d ! j)" using nE by simp
    have b: "BO ! i ! j = Fin (real (nrows L) / real (gram L i i) * c i j)"
      using BO_e [OF im jm] d_e [OF im] False by simp
    show ?thesis
    proof (cases "gram L j j = 0")
      case True
      then have "c i j = 0" using gram_diag_zero(2) [OF True, of i] by (simp add: c_def)
      then show ?thesis using True s b d_e [OF jm] by simp
    next
      case g: False
      have "fmul (BO ! i ! j) (d ! j)
          = Fin (real (nrows L) / real (gram L i i) * c i j * (real (nrows L) / real (gram L j j)))"
        using b d_e [OF jm] g by simp
      moreover have "real (nrows L) / real (gram L i i) * c i j * (real (nrows L) / real (gram L j j))
          = real (gram L i j) * real (nrows L) / (real (gram L i i) * real (gram L j j))"
        using assms(1) False g by (simp add: c_def field_simps)
      ultimately show ?thesis using s False g by simp
    qed
  qed
qed


lemma stored_iff_vote:
  assumes "csc_valid L" "col_canonical L j"
  shows "0 < nz_entry L n j \<longleftrightarrow> casts_vote L n j"
proof -
  let ?is = "col_indices L j" and ?ds = "col_data L j"
  have len: "length ?is = length ?ds" by (rule col_lengths [OF assms(1)])
  have dist: "distinct ?is" and nz: "0 \<notin> set ?ds"
    using assms(2) by (simp_all add: col_canonical_def)
  have c: "0 < nz_entry L n j \<longleftrightarrow> n \<in> set ?is"
    by (auto simp: nz_entry_def filter_empty_conv)
  have "set (map fst (zip ?is ?ds)) = set ?is" using len by simp
  then have "fst ` set (zip ?is ?ds) = set ?is" by (simp only: set_map)
  then have dom: "n \<in> set ?is \<longleftrightarrow> map_of (zip ?is ?ds) n \<noteq> None"
    by (simp add: map_of_eq_None_iff)
  show ?thesis
  proof (cases "map_of (zip ?is ?ds) n")
    case None
    then show ?thesis
      using c dom entry_canonical [OF assms(1) dist, of n] by (simp add: casts_vote_def)
  next
    case (Some v)
    then have "(n, v) \<in> set (zip ?is ?ds)" by (rule map_of_SomeD)
    then have "v \<in> set ?ds" by (rule set_zip_rightD)
    then have "v \<noteq> 0" using nz by auto
    then show ?thesis
      using Some c dom entry_canonical [OF assms(1) dist, of n] by (simp add: casts_vote_def)
  qed
qed

lemma gram_zero_stored:
  "gram L i j = 0 \<longleftrightarrow> (\<forall>n<nrows L. \<not> (0 < nz_entry L n i \<and> 0 < nz_entry L n j))"
  by (auto simp: gram_def)

lemma gram_zero_iff:
  assumes "csc_valid L" "col_canonical L i" "col_canonical L j"
  shows "gram L i j = 0 \<longleftrightarrow> never_cooccur L i j"
  unfolding gram_zero_stored stored_iff_vote [OF assms(1,2)] stored_iff_vote [OF assms(1,3)]
  by (auto simp: never_cooccur_def list_all_iff)

lemma gram_diag_zero_iff:
  assumes "csc_valid L" "col_canonical L i"
  shows "gram L i i = 0 \<longleftrightarrow> never_votes L i"
  unfolding gram_zero_stored stored_iff_vote [OF assms]
  by (auto simp: never_votes_def list_all_iff)

lemma votes_nonempty_stored:
  assumes "votes L i \<noteq> []"
  shows "col_indices L i \<noteq> []"
proof
  assume "col_indices L i = []"
  then have "entry L n i = 0" for n by (simp add: entry_def)
  then have "votes L i = []" by (simp add: votes_def)
  with assms show False by simp
qed

lemma correct_polarity_entry:
  assumes "i < length X" "j < length (X ! i)"
  shows "correct_polarity p ms X ! i ! j =
     (if i < ms \<and> j < ms \<and> i \<noteq> j
      then fmul (Fin (if p ! i = p ! j then 1 else -1)) (fsub (X ! i ! j) (Fin 1))
      else X ! i ! j)"
  using assms by (simp add: correct_polarity_def nth_enumerate_eq)

lemma correct_polarity_shape:
  "length (correct_polarity p ms X) = length X"
  "i < length X \<Longrightarrow> length (correct_polarity p ms X ! i) = length (X ! i)"
  by (simp_all add: correct_polarity_def nth_enumerate_eq)

lemma normalized_overlaps_shape:
  "length (normalized_overlaps L) = ncols L"
  "i < ncols L \<Longrightarrow> length (normalized_overlaps L ! i) = ncols L"
proof -
  define d where "d = map (\<lambda>i. fdiv (Fin 1) (cooccurrence L ! i ! i)) [0..<length (cooccurrence L)]"
  define BO where "BO = mat_mul (diag_mat d) (cooccurrence L)"
  have lend: "length d = ncols L" by (simp add: d_def cooccurrence_def)
  have nE: "normalized_overlaps L = mat_mul BO (diag_mat d)"
    by (simp add: normalized_overlaps_def Let_def BO_def d_def)
  have lenBO: "length BO = ncols L" by (simp add: BO_def mat_mul_length diag_mat_shape lend)
  show "length (normalized_overlaps L) = ncols L" by (simp add: nE mat_mul_length lenBO)
  assume i: "i < ncols L"
  have "length (mat_mul BO (diag_mat d) ! i) = ncols L"
  proof (rule mat_mul_row_length [where f = "\<lambda>i. map (\<lambda>k. if i = k then d ! i else Fin 0) [0..<ncols L]"])
    show "i < length BO" using i lenBO by simp
    show "diag_mat d = map (\<lambda>i. map (\<lambda>k. if i = k then d ! i else Fin 0) [0..<ncols L]) [0..<ncols L]"
      using lend by (simp add: diag_mat_def)
    show "\<forall>k<ncols L. length (map (\<lambda>ka. if k = ka then d ! k else Fin 0) [0..<ncols L]) = ncols L"
      by simp
    show "0 < ncols L" using i by simp
  qed
  then show "length (normalized_overlaps L ! i) = ncols L" by (simp add: nE)
qed

lemma polarities_unipolar:
  assumes "csc_valid L" "unipolar L"
  shows "polarities L t [0..<ncols L]
       = Inr (map (\<lambda>j. if col_data L j = [] then 0 else hd (remdups (col_data L j))) [0..<ncols L])"
proof -
  have sub: "set [0..<ncols L] \<subseteq> {..<ncols L}" by auto
  have u: "length (remdups (col_data L j)) \<le> 1" if "j < ncols L" for j
    using assms(2) that by (simp add: unipolar_def list_all_iff)
  have "\<not> (\<exists>j. j \<in> set [0..<ncols L] \<and> length (remdups (col_data L j)) > 1)"
  proof
    assume "\<exists>j. j \<in> set [0..<ncols L] \<and> length (remdups (col_data L j)) > 1"
    then obtain j where "j < ncols L" "length (remdups (col_data L j)) > 1" by auto
    with u [of j] show False by simp
  qed
  then have "find (\<lambda>j. length (remdups (col_data L j)) > 1) [0..<ncols L] = None"
    unfolding find_None_iff by blast
  then show ?thesis by (simp add: polarities_valid [OF assms(1) sub])
qed

lemma get_overlaps_result:
  assumes "csc_valid L" "unipolar L" "M self = Some (ncols L)" "0 < nrows L"
    "polarities L t [0..<ncols L] = Inr p"
  shows "get_overlaps_matrix self L t
       = Inr (map (map (\<lambda>x. fclamp (-0.95) 0.95 (nan_to_zero x)))
                (correct_polarity p (ncols L) (normalized_overlaps L)))"
  using assms(3,4,5) by (simp add: get_overlaps_matrix_def bnd_def attr_def)

lemma overlaps_entry:
  assumes "i < ncols L" "j < ncols L"
  shows "map (map (\<lambda>x. fclamp (-0.95) 0.95 (nan_to_zero x)))
           (correct_polarity p (ncols L) (normalized_overlaps L)) ! i ! j
       = fclamp (-0.95) 0.95 (nan_to_zero
           (if i \<noteq> j
            then fmul (Fin (if p ! i = p ! j then 1 else -1))
                   (fsub (normalized_overlaps L ! i ! j) (Fin 1))
            else normalized_overlaps L ! i ! j))"
proof -
  have a: "i < length (normalized_overlaps L)" using assms(1) by (simp add: normalized_overlaps_shape)
  have b: "j < length (normalized_overlaps L ! i)"
    using assms by (simp add: normalized_overlaps_shape)
  have c: "i < length (correct_polarity p (ncols L) (normalized_overlaps L))"
    using a by (simp add: correct_polarity_shape)
  have d: "j < length (correct_polarity p (ncols L) (normalized_overlaps L) ! i)"
    using a b by (simp add: correct_polarity_shape)
  show ?thesis
    using c d assms by (simp add: correct_polarity_entry [OF a b])
qed

lemma clamp_nan_range: "in_clamp_range (fclamp (-0.95) 0.95 (nan_to_zero x))"
  by (cases x) (simp_all add: nan_to_zero_def)


lemma overlaps_disjoint_value:
  "get_overlaps_matrix fitted2 votes_disjoint 0
     = Inr [[Fin 0.95, Fin (-0.95)], [Fin (-0.95), Fin 0.95]]"
  by code_simp

lemma normalized_disjoint_value:
  "normalized_overlaps votes_disjoint = [[Fin 2, Fin 0], [Fin 0, Fin 2]]"
  by code_simp

lemma overlaps_mixed_value:
  "get_overlaps_matrix fitted3 votes_mixed 0
     = Inr [[Fin 0.95, Fin (-0.5), Fin 0], [Fin (-0.5), Fin 0.95, Fin 0], [Fin 0, Fin 0, Fin 0]]"
  by code_simp


lemma get_overlaps_returns:
  assumes "csc_valid L" "unipolar L" "M self = Some (ncols L)" "0 < nrows L"
  shows "\<exists>Ov. get_overlaps_matrix self L t = Inr Ov \<and> square_mat (ncols L) Ov"
proof -
  note p = polarities_unipolar [OF assms(1,2), of t]
  note r = get_overlaps_result [OF assms p]
  let ?X = "correct_polarity (map (\<lambda>j. if col_data L j = [] then 0 else hd (remdups (col_data L j)))
              [0..<ncols L]) (ncols L) (normalized_overlaps L)"
  have "length ?X = ncols L" by (simp add: correct_polarity_shape normalized_overlaps_shape)
  moreover have "\<forall>i<ncols L. length (?X ! i) = ncols L"
    by (simp add: correct_polarity_shape normalized_overlaps_shape)
  ultimately have "square_mat (ncols L) (map (map (\<lambda>x. fclamp (-0.95) 0.95 (nan_to_zero x))) ?X)"
    by (simp add: square_mat_def list_all_length)
  with r show ?thesis by simp
qed

text \<open>
  C5.  Every matrix that \<^verbatim>\<open>_get_overlaps_matrix\<close> returns has all its entries finite and
  within \<open>[-0.95, 0.95]\<close>, so none is NaN; and on every valid unipolar vote matrix with at
  least one data point (and \<open>self.M\<close> equal to its number of columns) it does return an \<open>M\<close>
  by \<open>M\<close> matrix.
\<close>

theorem overlaps_in_range:
  "(get_overlaps_matrix self L t = Inr Ov \<longrightarrow> list_all (list_all in_clamp_range) Ov) \<and>
   (csc_valid L \<and> unipolar L \<and> M self = Some (ncols L) \<and> 0 < nrows L \<longrightarrow>
      (\<exists>Ov'. get_overlaps_matrix self L t = Inr Ov' \<and> square_mat (ncols L) Ov'))"
proof (intro conjI impI)
  assume a: "get_overlaps_matrix self L t = Inr Ov"
  then obtain X where "Ov = map (map (\<lambda>x. fclamp (-0.95) 0.95 (nan_to_zero x))) X"
    by (auto simp: get_overlaps_matrix_def bnd_def split: sum.splits if_splits)
  then show "list_all (list_all in_clamp_range) Ov"
    using clamp_nan_range by (simp add: list_all_iff)
next
  assume "csc_valid L \<and> unipolar L \<and> M self = Some (ncols L) \<and> 0 < nrows L"
  then show "\<exists>Ov'. get_overlaps_matrix self L t = Inr Ov' \<and> square_mat (ncols L) Ov'"
    using get_overlaps_returns by blast
qed

lemma votes_mixed_unipolar: "unipolar votes_mixed"
  by code_simp

theorem overlaps_in_range_witness:
  "\<exists>Ov. get_overlaps_matrix fitted3 votes_mixed 0 = Inr Ov \<and> square_mat 3 Ov \<and>
        list_all (list_all in_clamp_range) Ov"
proof -
  have h: "csc_valid votes_mixed \<and> unipolar votes_mixed \<and> M fitted3 = Some (ncols votes_mixed)
           \<and> 0 < nrows votes_mixed"
    using votes_mixed_facts(1) votes_mixed_unipolar by (simp add: fitted3_def votes_mixed_def)
  have n: "ncols votes_mixed = 3" by (simp add: votes_mixed_def)
  from overlaps_in_range [of fitted3 votes_mixed 0] h
  obtain Ov where Ov: "get_overlaps_matrix fitted3 votes_mixed 0 = Inr Ov" "square_mat 3 Ov"
    unfolding n by blast
  from overlaps_in_range [of fitted3 votes_mixed 0 Ov] Ov(1)
  have "list_all (list_all in_clamp_range) Ov" by blast
  with Ov show ?thesis by blast
qed

text \<open>
  C6 (amended).  For every valid unipolar vote matrix and every source \<open>i\<close> that casts at
  least one vote, the propensity-normalised self-overlap (the diagonal entry after
  \<^verbatim>\<open>O = B @ O @ B\<close>) is \<open>1 / beta_i = N / (L_nz.T @ L_nz)[i,i]\<close>, the returned diagonal entry
  is that value clamped at \<open>0.95\<close>, and it is exactly \<open>0.95\<close> when column \<open>i\<close> stores no data
  point twice.
\<close>

theorem overlaps_diagonal:
  assumes "csc_valid L" "unipolar L" "M self = Some (ncols L)" "0 < nrows L"
    "i < ncols L" "votes L i \<noteq> []"
  shows "\<exists>Ov. get_overlaps_matrix self L t = Inr Ov \<and>
           normalized_overlaps L ! i ! i = Fin (real (nrows L) / real (gram L i i)) \<and>
           Ov ! i ! i = Fin (min (real (nrows L) / real (gram L i i)) 0.95) \<and>
           (distinct (col_indices L i) \<longrightarrow> Ov ! i ! i = Fin 0.95)"
proof -
  note p = polarities_unipolar [OF assms(1,2), of t]
  note r = get_overlaps_result [OF assms(1-4) p]
  have g: "0 < gram L i i" by (rule gram_pos [OF assms(1) votes_nonempty_stored [OF assms(6)]])
  have n: "normalized_overlaps L ! i ! i = Fin (real (nrows L) / real (gram L i i))"
    using g by (simp add: normalized_overlaps_entry [OF assms(4,5,5)])
  have q: "0 < real (nrows L) / real (gram L i i)" using g assms(4) by simp
  let ?Ov = "map (map (\<lambda>x. fclamp (-0.95) 0.95 (nan_to_zero x)))
      (correct_polarity (map (\<lambda>j. if col_data L j = [] then 0 else hd (remdups (col_data L j)))
              [0..<ncols L]) (ncols L) (normalized_overlaps L))"
  have e: "?Ov ! i ! i = Fin (min (real (nrows L) / real (gram L i i)) 0.95)"
    unfolding overlaps_entry [OF assms(5,5)] using q by (simp add: n nan_to_zero_def max_def)
  have c: "?Ov ! i ! i = Fin 0.95" if "distinct (col_indices L i)"
  proof -
    have "real (gram L i i) \<le> real (nrows L)" using gram_le_nrows [OF that] by simp
    then have "1 \<le> real (nrows L) / real (gram L i i)" using g by (simp add: le_divide_eq)
    moreover have "(0.95::real) \<le> 1" by simp
    ultimately have "0.95 \<le> real (nrows L) / real (gram L i i)" by (rule order_trans [rotated])
    then have "min (real (nrows L) / real (gram L i i)) 0.95 = 0.95" by (rule min_absorb2)
    then show ?thesis unfolding e by (simp only:)
  qed
  from r n e c show ?thesis by blast
qed

lemma votes_disjoint_facts:
  "csc_valid votes_disjoint" "unipolar votes_disjoint" "votes votes_disjoint 0 = [1]"
  "gram votes_disjoint 0 0 = 1" "distinct (col_indices votes_disjoint 0)"
  "never_cooccur votes_disjoint 0 1" "never_votes votes_disjoint 0 = False"
  "never_votes votes_disjoint 1 = False"
  by code_simp+

theorem overlaps_diagonal_witness:
  "\<exists>Ov. get_overlaps_matrix fitted2 votes_disjoint 0 = Inr Ov \<and>
        normalized_overlaps votes_disjoint ! 0 ! 0 = Fin 2 \<and> Ov ! 0 ! 0 = Fin 0.95"
proof -
  have h: "M fitted2 = Some (ncols votes_disjoint)" "0 < nrows votes_disjoint"
    "0 < ncols votes_disjoint"
    by (simp_all add: fitted2_def votes_disjoint_def)
  have h4: "votes votes_disjoint 0 \<noteq> []" by (simp add: votes_disjoint_facts(3))
  have "nrows votes_disjoint = 2" by (simp add: votes_disjoint_def)
  then have v: "real (nrows votes_disjoint) / real (gram votes_disjoint 0 0) = 2"
    by (simp add: votes_disjoint_facts(4))
  from overlaps_diagonal [OF votes_disjoint_facts(1,2) h h4, of 0] votes_disjoint_facts(5)
  show ?thesis unfolding v by auto
qed

text \<open>
  The claim C6 as stated fails: on \<open>votes_disjoint\<close> source 0 votes on one of two data
  points, its normalised self-overlap is \<open>2\<close>, not \<open>1\<close>, and the returned diagonal entry is
  \<open>0.95\<close>.
\<close>

theorem overlaps_diagonal_not_one:
  "votes votes_disjoint 0 = [1] \<and>
   normalized_overlaps votes_disjoint ! 0 ! 0 = Fin 2 \<and>
   get_overlaps_matrix fitted2 votes_disjoint 0
     = Inr [[Fin 0.95, Fin (-0.95)], [Fin (-0.95), Fin 0.95]]"
  using votes_disjoint_facts(3) overlaps_disjoint_value normalized_disjoint_value by simp


text \<open>
  C7 (amended).  For every valid unipolar vote matrix and distinct sources \<open>i\<close>, \<open>j\<close> whose
  columns store no data point twice and no explicit zero, and that never co-occur: the
  returned entry \<open>O[i,j]\<close> is \<open>0\<close> when one of the two sources never votes (the NaN case);
  when both vote, it is \<open>-0.95\<close> if their polarities are equal and \<open>0.95\<close> otherwise.
\<close>

theorem overlaps_never_cooccur:
  assumes "csc_valid L" "unipolar L" "M self = Some (ncols L)" "0 < nrows L"
    "i < ncols L" "j < ncols L" "i \<noteq> j" "never_cooccur L i j"
    "col_canonical L i" "col_canonical L j"
  shows "\<exists>Ov p. get_overlaps_matrix self L t = Inr Ov \<and>
           polarities L t [0..<ncols L] = Inr p \<and>
           Ov ! i ! j = (if never_votes L i \<or> never_votes L j then Fin 0
                         else if p ! i = p ! j then Fin (-0.95) else Fin 0.95)"
proof -
  let ?p = "map (\<lambda>j. if col_data L j = [] then 0 else hd (remdups (col_data L j))) [0..<ncols L]"
  note p = polarities_unipolar [OF assms(1,2), of t]
  note r = get_overlaps_result [OF assms(1-4) p]
  let ?Ov = "map (map (\<lambda>x. fclamp (-0.95) 0.95 (nan_to_zero x)))
      (correct_polarity ?p (ncols L) (normalized_overlaps L))"
  have g0: "gram L i j = 0" using assms(8) by (simp add: gram_zero_iff [OF assms(1,9,10)])
  note gi = gram_diag_zero_iff [OF assms(1,9)] and gj = gram_diag_zero_iff [OF assms(1,10)]
  note n = normalized_overlaps_entry [OF assms(4,5,6)]
  have e: "?Ov ! i ! j = (if never_votes L i \<or> never_votes L j then Fin 0
                         else if ?p ! i = ?p ! j then Fin (-0.95) else Fin 0.95)"
  proof (cases "gram L i i = 0 \<or> gram L j j = 0")
    case True
    then have "normalized_overlaps L ! i ! j = NaN" using n by simp
    then have "?Ov ! i ! j = Fin 0"
      unfolding overlaps_entry [OF assms(5,6)] using assms(7)
      by (simp add: fsub_def nan_to_zero_def)
    then show ?thesis using True by (simp add: gi gj)
  next
    case False
    then have z: "normalized_overlaps L ! i ! j = Fin 0" using n g0 by simp
    have nv: "\<not> (never_votes L i \<or> never_votes L j)" using False by (simp add: gi gj)
    show ?thesis
    proof (cases "?p ! i = ?p ! j")
      case True
      then have "?Ov ! i ! j = Fin (-0.95)"
        unfolding overlaps_entry [OF assms(5,6)] z using assms(7)
        by (simp add: fsub_def nan_to_zero_def)
      then show ?thesis using True nv by simp
    next
      case ne: False
      then have "?Ov ! i ! j = Fin 0.95"
        unfolding overlaps_entry [OF assms(5,6)] z using assms(7)
        by (simp add: fsub_def nan_to_zero_def)
      then show ?thesis using ne nv by simp
    qed
  qed
  from r p e show ?thesis by blast
qed

lemma votes_mixed_never:
  "never_cooccur votes_mixed 0 2" "never_votes votes_mixed 2"
  "col_canonical votes_mixed 0" "col_canonical votes_mixed 2"
  by code_simp+

lemma votes_disjoint_canonical:
  "col_canonical votes_disjoint 0" "col_canonical votes_disjoint 1"
  by code_simp+

theorem overlaps_never_cooccur_witness:
  "(\<exists>Ov. get_overlaps_matrix fitted3 votes_mixed 0 = Inr Ov \<and> Ov ! 0 ! 2 = Fin 0) \<and>
   (\<exists>Ov. get_overlaps_matrix fitted2 votes_disjoint 0 = Inr Ov \<and>
          (Ov ! 0 ! 1 = Fin (-0.95) \<or> Ov ! 0 ! 1 = Fin 0.95))"
proof -
  have h: "M fitted3 = Some (ncols votes_mixed)" "0 < nrows votes_mixed"
    "0 < ncols votes_mixed" "2 < ncols votes_mixed" "(0::nat) \<noteq> 2"
    by (simp_all add: fitted3_def votes_mixed_def)
  from overlaps_never_cooccur [OF votes_mixed_facts(1) votes_mixed_unipolar h votes_mixed_never(1,3,4), of 0]
    votes_mixed_never(2)
  have a: "\<exists>Ov. get_overlaps_matrix fitted3 votes_mixed 0 = Inr Ov \<and> Ov ! 0 ! 2 = Fin 0"
    by auto
  have k: "M fitted2 = Some (ncols votes_disjoint)" "0 < nrows votes_disjoint"
    "0 < ncols votes_disjoint" "1 < ncols votes_disjoint" "(0::nat) \<noteq> 1"
    by (simp_all add: fitted2_def votes_disjoint_def)
  from overlaps_never_cooccur [OF votes_disjoint_facts(1,2) k votes_disjoint_facts(6)
      votes_disjoint_canonical, of 0]
    votes_disjoint_facts(7,8)
  have b: "\<exists>Ov. get_overlaps_matrix fitted2 votes_disjoint 0 = Inr Ov \<and>
          (Ov ! 0 ! 1 = Fin (-0.95) \<or> Ov ! 0 ! 1 = Fin 0.95)"
    by auto
  from a b show ?thesis by blast
qed

text \<open>
  The claim C7 as stated fails: the two sources of \<open>votes_disjoint\<close> vote on different data
  points, never together, and the entry \<open>O[0,1]\<close> is \<open>-0.95\<close>.
\<close>

theorem overlaps_never_cooccur_not_zero:
  "csc_valid votes_disjoint \<and> col_canonical votes_disjoint 0 \<and> col_canonical votes_disjoint 1 \<and>
   never_cooccur votes_disjoint 0 1 \<and>
   (\<exists>Ov. get_overlaps_matrix fitted2 votes_disjoint 0 = Inr Ov \<and>
          Ov ! 0 ! 1 = Fin (-0.95) \<and> Ov ! 0 ! 1 \<noteq> Fin 0)"
  using votes_disjoint_facts(1,6) votes_disjoint_canonical overlaps_disjoint_value by simp

section \<open>The loss is the normalised sum over ordered pairs\<close>

lemma foldl_fadd_Fin: "foldl fadd (Fin a) (map Fin xs) = Fin (a + sum_list xs)"
  by (induction xs arbitrary: a) (simp_all add: add.assoc)

lemma fsum_Fin: "fsum (map Fin xs) = Fin (sum_list xs)"
  by (simp add: fsum_def foldl_fadd_Fin)

lemma pair_term_ok:
  assumes "gamma self = Some g" "t < length g" "i < length (g ! t)" "j < length (g ! t)"
    "i < length O_t" "j < length (O_t ! i)"
  shows "pair_term self O_t t i j = Inr (fsq (fsub (fmul (g ! t ! i) (g ! t ! j)) (O_t ! i ! j)))"
  using assms by (simp add: pair_term_def bnd_def attr_def idx2_def idx_def)

lemma loss_loop_j_fold:
  assumes "gamma self = Some g" "t < length g" "length (g ! t) = m" "square_mat m O_t" "i < m"
    "set js \<subseteq> {..<m}"
  shows "loss_loop_j self O_t t i js loss =
     Inr (foldl fadd loss
            (map (\<lambda>j. fsq (fsub (fmul (g ! t ! i) (g ! t ! j)) (O_t ! i ! j)))
                 (filter (\<lambda>j. i \<noteq> j) js)))"
  using assms(6)
proof (induction js arbitrary: loss)
  case Nil
  then show ?case by simp
next
  case (Cons j js)
  have j: "j < m" using Cons.prems by simp
  have sq: "i < length O_t" "j < length (O_t ! i)"
    using assms(4,5) j by (simp_all add: square_mat_def list_all_length)
  have pt: "pair_term self O_t t i j = Inr (fsq (fsub (fmul (g ! t ! i) (g ! t ! j)) (O_t ! i ! j)))"
    using assms(1,2,3,5) j sq by (intro pair_term_ok) simp_all
  from Cons.prems have "set js \<subseteq> {..<m}" by simp
  note ih = Cons.IH [OF this]
  show ?case
  proof (cases "i = j")
    case True
    then show ?thesis using ih [of loss] by simp
  next
    case False
    then show ?thesis
      using ih [of "fadd loss (fsq (fsub (fmul (g ! t ! i) (g ! t ! j)) (O_t ! i ! j)))"]
      by (simp add: pt bnd_def)
  qed
qed

lemma loss_loop_i_fold:
  assumes "gamma self = Some g" "t < length g" "length (g ! t) = m" "square_mat m O_t"
    "set is \<subseteq> {..<m}"
  shows "loss_loop_i self O_t t m is loss =
     Inr (foldl fadd loss
            (concat (map (\<lambda>i. map (\<lambda>j. fsq (fsub (fmul (g ! t ! i) (g ! t ! j)) (O_t ! i ! j)))
                                 (filter (\<lambda>j. i \<noteq> j) [0..<m])) is)))"
  using assms(5)
proof (induction "is" arbitrary: loss)
  case Nil
  then show ?case by simp
next
  case (Cons i "is")
  have i: "i < m" using Cons.prems by simp
  have "set [0..<m] \<subseteq> {..<m}" by auto
  note lj = loss_loop_j_fold [OF assms(1-4) i this]
  from Cons.prems have "set is \<subseteq> {..<m}" by simp
  from Cons.IH [OF this] show ?case by (simp add: lj bnd_def)
qed

lemma map_ordered_pairs:
  "map (\<lambda>(i, j). f i j) (ordered_pairs m)
   = concat (map (\<lambda>i. map (f i) (filter (\<lambda>j. i \<noteq> j) [0..<m])) [0..<m])"
  by (simp add: ordered_pairs_def map_concat comp_def)

lemma divisor_nonzero:
  assumes "2 \<le> m"
  shows "int m * int m - int m \<noteq> 0" "real m ^ 2 - real m \<noteq> 0"
    "real_of_int (int m * int m - int m) = real m ^ 2 - real m"
proof -
  have "int m * int m - int m = int m * (int m - 1)" by (simp add: algebra_simps)
  moreover have "int m \<noteq> 0" "int m - 1 \<noteq> 0" using assms by simp_all
  ultimately show a: "int m * int m - int m \<noteq> 0" by simp
  show b: "real_of_int (int m * int m - int m) = real m ^ 2 - real m"
    by (simp add: power2_eq_square)
  from a have "real_of_int (int m * int m - int m) \<noteq> 0" by (simp only: of_int_eq_0_iff not_False_eq_True)
  with b show "real m ^ 2 - real m \<noteq> 0" by simp
qed

lemma task_loss_float:
  assumes "M self = Some m" "gamma self = Some g" "gamma_init self = Some gi" "2 \<le> m"
    "t < length g" "length (g ! t) = m" "square_mat m O_t"
  shows "task_loss self O_t t l2 = Inr (float_task_loss m g gi O_t t l2)"
proof -
  have "set [0..<m] \<subseteq> {..<m}" by auto
  note li = loss_loop_i_fold [OF assms(2,5,6,7) this, of "Fin 0"]
  note dv = divisor_nonzero [OF assms(4)]
  have rw: "map (\<lambda>x. fsq (fsub x gi)) (g ! t) = map (\<lambda>i. fsq (fsub (g ! t ! i) gi)) [0..<m]"
    using assms(6) by (intro nth_equalityI) simp_all
  show ?thesis
    using dv(1) assms(1,2,3,5)
    by (simp add: task_loss_def float_task_loss_def bnd_def attr_def idx_def li dv(3) rw
        map_ordered_pairs fsum_def Let_def del: of_int_diff of_int_mult)
qed

text \<open>
  With fewer than two sources the divisor \<open>M\<^sup>2 - M\<close> is zero and \<^verbatim>\<open>_task_loss\<close> raises, so
  the formula below is stated for at least two sources.
\<close>

lemma task_loss_single_source:
  assumes "M self = Some m" "m < 2"
  shows "task_loss self O_t t l2 = Inl ZeroDivisionError"
proof -
  have "m = 0 \<or> m = 1" using assms(2) by auto
  then show ?thesis
    using assms(1) by (auto simp: task_loss_def bnd_def attr_def)
qed

lemma get_loss_loop_fold:
  assumes "M self = Some m" "gamma self = Some g" "gamma_init self = Some gi" "2 \<le> m"
    "list_all (\<lambda>row. length row = m) g"
    "\<forall>p \<in> set tos. fst p < length g \<and> square_mat m (snd p)"
  shows "get_loss_loop self l2 tos loss =
     Inr (foldl fadd loss (map (\<lambda>p. float_task_loss m g gi (snd p) (fst p) l2) tos))"
  using assms(6)
proof (induction tos arbitrary: loss)
  case Nil
  then show ?case by simp
next
  case (Cons p tos)
  obtain t O_t where p: "p = (t, O_t)" by (cases p)
  have t: "t < length g" and sq: "square_mat m O_t" using Cons.prems p by simp_all
  have "length (g ! t) = m" using assms(5) t by (simp add: list_all_length)
  note tl = task_loss_float [OF assms(1-4) t this sq, of l2]
  from Cons.prems have "\<forall>p \<in> set tos. fst p < length g \<and> square_mat m (snd p)" by simp
  from Cons.IH [OF this] show ?case by (simp add: p tl bnd_def)
qed

lemma get_loss_float:
  assumes "M self = Some m" "gamma self = Some g" "gamma_init self = Some gi" "2 \<le> m"
    "list_all (\<lambda>row. length row = m) g"
    "length O_all = length g" "list_all (square_mat m) O_all"
  shows "get_loss self O_all l2
       = Inr (fsum (map (\<lambda>t. float_task_loss m g gi (O_all ! t) t l2) [0..<length g]))"
proof -
  have en: "\<forall>p \<in> set (enumerate 0 O_all). fst p < length g \<and> square_mat m (snd p)"
    using assms(6,7) by (auto simp: in_set_enumerate_eq list_all_length)
  have "map (\<lambda>p. float_task_loss m g gi (snd p) (fst p) l2) (enumerate 0 O_all)
      = map (\<lambda>t. float_task_loss m g gi (O_all ! t) t l2) [0..<length g]"
    using assms(6) by (intro nth_equalityI) (simp_all add: nth_enumerate_eq)
  then show ?thesis
    unfolding get_loss_def get_loss_loop_fold [OF assms(1-5) en]
    by (simp add: fsum_def)
qed


lemma sum_list_upt: "sum_list (map f [0..<m]) = (\<Sum>i<m. f i)"
  by (simp add: interv_sum_list_conv_sum_set_nat atLeast0LessThan)

lemma pair_sum:
  "(\<Sum>i<(m::nat). \<Sum>j<m. if i \<noteq> j then f i j else (0::real)) =
   (\<Sum>(i, j) \<in> Set.filter (\<lambda>(i, j). i \<noteq> j) ({..<m} \<times> {..<m}). f i j)"
proof -
  have "(\<Sum>i<m. \<Sum>j<m. if i \<noteq> j then f i j else (0::real)) =
        (\<Sum>(i, j) \<in> {..<m} \<times> {..<m}. if i \<noteq> j then f i j else 0)"
    by (simp add: sum.cartesian_product)
  also have "\<dots> = (\<Sum>p \<in> {..<m} \<times> {..<m}. if (case p of (i, j) \<Rightarrow> i \<noteq> j) then (case p of (i, j) \<Rightarrow> f i j) else 0)"
    by (rule sum.cong) auto
  also have "\<dots> = (\<Sum>p \<in> {p \<in> {..<m} \<times> {..<m}. case p of (i, j) \<Rightarrow> i \<noteq> j}. case p of (i, j) \<Rightarrow> f i j)"
    by (rule sum.inter_filter [symmetric]) simp
  finally show ?thesis by simp
qed

lemma spec_task_loss_double_sum:
  "spec_task_loss m g gi O_t t l2 =
     (\<Sum>i<m. \<Sum>j<m. if i \<noteq> j then (g ! t ! i * g ! t ! j - O_t ! i ! j)\<^sup>2 else 0)
        / (real m ^ 2 - real m)
     + (if l2 > 0 then l2 * (\<Sum>i<m. (g ! t ! i - gi)\<^sup>2) else 0)"
  unfolding spec_task_loss_def pair_sum ..

lemma sum_list_concat_real:
  "sum_list (concat xss) = sum_list (map sum_list xss)" for xss :: "real list list"
  by (induction xss) simp_all

lemma sum_list_ordered_pairs:
  "sum_list (map (\<lambda>(i, j). f i j) (ordered_pairs m))
   = (\<Sum>i<m. \<Sum>j<m. if i \<noteq> j then f i j else (0::real))"
proof -
  have "sum_list (map (\<lambda>(i, j). f i j) (ordered_pairs m))
      = sum_list (map (\<lambda>i. sum_list (map (f i) (filter (\<lambda>j. i \<noteq> j) [0..<m]))) [0..<m])"
    by (simp add: map_ordered_pairs sum_list_concat_real comp_def)
  also have "\<dots> = sum_list (map (\<lambda>i. sum_list (map (\<lambda>j. if i \<noteq> j then f i j else 0) [0..<m])) [0..<m])"
    by (simp add: sum_list_map_filter')
  finally show ?thesis by (simp add: sum_list_upt)
qed

lemma ordered_pairs_bound:
  "(i, j) \<in> set (ordered_pairs m) \<Longrightarrow> i < m \<and> j < m"
  by (auto simp: ordered_pairs_def)

lemma float_task_loss_finite:
  assumes "2 \<le> m" "t < length gr" "length (gr ! t) = m" "square_mat m Or"
  shows "float_task_loss m (fin_mat gr) (Fin gir) (fin_mat Or) t l2
       = Fin (spec_task_loss m gr gir Or t l2)"
proof -
  have g: "fin_mat gr ! t ! i = Fin (gr ! t ! i)" if "i < m" for i
    using that assms(2,3) by (simp add: fin_mat_def)
  have o: "fin_mat Or ! i ! j = Fin (Or ! i ! j)" if "i < m" "j < m" for i j
    using that assms(4) by (simp add: fin_mat_def square_mat_def list_all_length)
  have "map (\<lambda>(i, j). fsq (fsub (fmul (fin_mat gr ! t ! i) (fin_mat gr ! t ! j)) (fin_mat Or ! i ! j)))
            (ordered_pairs m)
      = map (\<lambda>p. Fin ((\<lambda>(i, j). (gr ! t ! i * gr ! t ! j - Or ! i ! j)\<^sup>2) p)) (ordered_pairs m)"
  proof (rule map_cong [OF refl])
    fix p assume p: "p \<in> set (ordered_pairs m)"
    obtain i j where ij: "p = (i, j)" by (cases p)
    have b: "i < m" "j < m" using ordered_pairs_bound p ij by blast+
    show "(case p of (i, j) \<Rightarrow> fsq (fsub (fmul (fin_mat gr ! t ! i) (fin_mat gr ! t ! j)) (fin_mat Or ! i ! j)))
        = Fin ((\<lambda>(i, j). (gr ! t ! i * gr ! t ! j - Or ! i ! j)\<^sup>2) p)"
      by (simp add: ij g [OF b(1)] g [OF b(2)] o [OF b] fsq_def fsub_def power2_eq_square)
  qed
  also have "\<dots> = map Fin (map (\<lambda>(i, j). (gr ! t ! i * gr ! t ! j - Or ! i ! j)\<^sup>2) (ordered_pairs m))"
    by simp
  finally have s1: "fsum (map (\<lambda>(i, j). fsq (fsub (fmul (fin_mat gr ! t ! i) (fin_mat gr ! t ! j)) (fin_mat Or ! i ! j)))
            (ordered_pairs m))
      = Fin (\<Sum>i<m. \<Sum>j<m. if i \<noteq> j then (gr ! t ! i * gr ! t ! j - Or ! i ! j)\<^sup>2 else 0)"
    by (simp only: fsum_Fin sum_list_ordered_pairs)
  have "map (\<lambda>i. fsq (fsub (fin_mat gr ! t ! i) (Fin gir))) [0..<m]
      = map (\<lambda>i. Fin ((gr ! t ! i - gir)\<^sup>2)) [0..<m]"
    by (rule map_cong [OF refl]) (simp add: g fsq_def fsub_def power2_eq_square)
  also have "\<dots> = map Fin (map (\<lambda>i. (gr ! t ! i - gir)\<^sup>2) [0..<m])" by simp
  finally have s2: "fsum (map (\<lambda>i. fsq (fsub (fin_mat gr ! t ! i) (Fin gir))) [0..<m])
      = Fin (\<Sum>i<m. (gr ! t ! i - gir)\<^sup>2)"
    by (simp only: fsum_Fin sum_list_upt)
  note dv = divisor_nonzero(2) [OF assms(1)]
  show ?thesis
    unfolding float_task_loss_def s1 s2 spec_task_loss_double_sum
    using dv by (simp add: Let_def)
qed

text \<open>
  C1.  For a fitted model with \<open>M \<ge> 2\<close> sources and a \<open>T\<close> by \<open>M\<close> parameter matrix: for every
  task \<open>t\<close>, weight \<open>l2\<close> and \<open>M\<close> by \<open>M\<close> matrix \<open>O_t\<close>, \<^verbatim>\<open>_task_loss(O_t, t, l2)\<close> returns the
  sum over the ordered pairs \<open>(i, j)\<close>, \<open>i \<noteq> j\<close>, of \<open>(gamma[t,i] * gamma[t,j] - O_t[i,j])\<^sup>2\<close>
  divided by \<open>M\<^sup>2 - M\<close>, plus \<open>l2 * (\<Sum>i. (gamma[t,i] - gamma_init)\<^sup>2)\<close> when \<open>l2 > 0\<close>; and for every
  list \<open>O\<close> of \<open>T\<close> such matrices \<^verbatim>\<open>get_loss(O, l2)\<close> returns the plain sum of these task losses
  over the \<open>T\<close> tasks.  This holds in float arithmetic for all parameters and overlaps
  (the first two parts), and with the sums of real numbers when they are finite (the
  last two parts).
\<close>

theorem loss_formula:
  assumes "M self = Some m" "gamma self = Some g" "gamma_init self = Some gi" "2 \<le> m"
    "length g = T self" "list_all (\<lambda>row. length row = m) g"
  shows "(t < T self \<and> square_mat m O_t \<longrightarrow>
            task_loss self O_t t l2 = Inr (float_task_loss m g gi O_t t l2))
       \<and> (length O_all = T self \<and> list_all (square_mat m) O_all \<longrightarrow>
            get_loss self O_all l2
              = Inr (fsum (map (\<lambda>t. float_task_loss m g gi (O_all ! t) t l2) [0..<T self])))
       \<and> (g = fin_mat gr \<and> gi = Fin gir \<longrightarrow>
            (t < T self \<and> square_mat m Or \<longrightarrow>
               task_loss self (fin_mat Or) t l2 = Inr (Fin (spec_task_loss m gr gir Or t l2)))
          \<and> (length Os = T self \<and> list_all (square_mat m) Os \<longrightarrow>
               get_loss self (map fin_mat Os) l2
                 = Inr (Fin (\<Sum>t<T self. spec_task_loss m gr gir (Os ! t) t l2))))"
proof -
  have row: "length (g ! t) = m" if "t < length g" for t
    using assms(6) that by (simp add: list_all_length)
  have a: "task_loss self X t l2 = Inr (float_task_loss m g gi X t l2)"
    if "t < T self" "square_mat m X" for X
    using task_loss_float [OF assms(1-4) _ row that(2)] that(1) assms(5) by simp
  have b: "get_loss self Xs l2
              = Inr (fsum (map (\<lambda>t. float_task_loss m g gi (Xs ! t) t l2) [0..<T self]))"
    if "length Xs = T self" "list_all (square_mat m) Xs" for Xs
    using get_loss_float [OF assms(1-4,6) _ that(2)] that(1) assms(5) by simp
  have fm: "square_mat m (fin_mat X)" if "square_mat m X" for X :: "real list list"
    using that by (simp add: square_mat_def fin_mat_def list_all_length)
  have c: "task_loss self (fin_mat Or) t l2 = Inr (Fin (spec_task_loss m gr gir Or t l2))"
    if e: "g = fin_mat gr" "gi = Fin gir" and t: "t < T self" and sq: "square_mat m Or"
  proof -
    have tl: "t < length gr" using t assms(5) e(1) by (simp add: fin_mat_def)
    have rl: "length (gr ! t) = m" using row [of t] t assms(5) e(1) tl by (simp add: fin_mat_def)
    show ?thesis
      using a [OF t fm [OF sq]] float_task_loss_finite [OF assms(4) tl rl sq, of gir l2] e by simp
  qed
  have d: "get_loss self (map fin_mat Os) l2
                 = Inr (Fin (\<Sum>t<T self. spec_task_loss m gr gir (Os ! t) t l2))"
    if e: "g = fin_mat gr" "gi = Fin gir" and len: "length Os = T self"
      and sq: "list_all (square_mat m) Os"
  proof -
    have l2': "length (map fin_mat Os) = T self" using len by simp
    have sq': "list_all (square_mat m) (map fin_mat Os)"
      using sq fm by (simp add: list_all_iff)
    have "map (\<lambda>t. float_task_loss m g gi (map fin_mat Os ! t) t l2) [0..<T self]
        = map (\<lambda>t. Fin (spec_task_loss m gr gir (Os ! t) t l2)) [0..<T self]"
    proof (rule map_cong [OF refl])
      fix t assume "t \<in> set [0..<T self]"
      then have t: "t < T self" by simp
      have tl: "t < length gr" using t assms(5) e(1) by (simp add: fin_mat_def)
      have rl: "length (gr ! t) = m" using row [of t] t assms(5) e(1) tl by (simp add: fin_mat_def)
      have sq1: "square_mat m (Os ! t)" using sq t len by (simp add: list_all_length)
      show "float_task_loss m g gi (map fin_mat Os ! t) t l2
          = Fin (spec_task_loss m gr gir (Os ! t) t l2)"
        using float_task_loss_finite [OF assms(4) tl rl sq1, of gir l2] e t len by simp
    qed
    also have "\<dots> = map Fin (map (\<lambda>t. spec_task_loss m gr gir (Os ! t) t l2) [0..<T self])"
      by simp
    finally have "fsum (map (\<lambda>t. float_task_loss m g gi (map fin_mat Os ! t) t l2) [0..<T self])
        = Fin (\<Sum>t<T self. spec_task_loss m gr gir (Os ! t) t l2)"
      by (simp only: fsum_Fin sum_list_upt)
    with b [OF l2' sq'] show ?thesis by simp
  qed
  from a b c d show ?thesis by blast
qed

lemma spec_task_loss_ex: "spec_task_loss 2 [[1, 2]] 1 overlaps2 0 0.5 = 3.625"
  by (simp add: spec_task_loss_double_sum overlaps2_def lessThan_Suc numeral_2_eq_2 power2_eq_square)

theorem loss_formula_witness:
  "task_loss fitted2 (fin_mat overlaps2) 0 0.5 = Inr (Fin 3.625) \<and>
   get_loss fitted2 [fin_mat overlaps2] 0.5 = Inr (Fin 3.625)"
proof -
  have h: "M fitted2 = Some 2" "gamma fitted2 = Some [[Fin 1, Fin 2]]"
    "gamma_init fitted2 = Some (Fin 1)"
    "(2::nat) \<le> 2" "length [[Fin 1, Fin 2]] = T fitted2"
    "list_all (\<lambda>row. length row = 2) [[Fin 1, Fin 2]]"
    by (simp_all add: fitted2_def)
  have e: "[[Fin 1, Fin 2]] = fin_mat [[1, 2]] \<and> Fin 1 = Fin 1" by (simp add: fin_mat_def)
  have sq: "square_mat 2 overlaps2" "list_all (square_mat 2) [overlaps2]"
    by (simp_all add: square_mat_def overlaps2_def)
  have t: "0 < T fitted2" "length [overlaps2] = T fitted2" by (simp_all add: fitted2_def)
  have s1: "(\<Sum>t<T fitted2. spec_task_loss 2 [[1, 2]] 1 ([overlaps2] ! t) t 0.5)
      = spec_task_loss 2 [[1, 2]] 1 overlaps2 0 0.5"
    by (simp add: fitted2_def)
  from loss_formula [OF h, of 0 _ "0.5" _ "[[1, 2]]" 1 overlaps2 "[overlaps2]"] e sq t
  have "task_loss fitted2 (fin_mat overlaps2) 0 0.5
          = Inr (Fin (spec_task_loss 2 [[1, 2]] 1 overlaps2 0 0.5))"
    and "get_loss fitted2 (map fin_mat [overlaps2]) 0.5
          = Inr (Fin (\<Sum>t<T fitted2. spec_task_loss 2 [[1, 2]] 1 ([overlaps2] ! t) t 0.5))"
    by blast+
  then show ?thesis unfolding s1 spec_task_loss_ex by simp
qed


section \<open>Properties of the derived accuracies\<close>

lemma accs_entry_cases:
  "accs_entry (Fin x) = Fin (if 0.5 * (x + 1) < 0.01 then 0.01
                              else if 0.99 < 0.5 * (x + 1) then 0.99 else 0.5 * (x + 1))"
  "accs_entry PInf = Fin 0.99" "accs_entry MInf = Fin 0.01" "accs_entry NaN = NaN"
  by (simp_all add: accs_entry_def inf_signed_def min_def max_def)

lemma accs_entry_range:
  assumes "x \<noteq> NaN"
  shows "\<exists>r. accs_entry x = Fin r \<and> 0.01 \<le> r \<and> r \<le> 0.99"
proof (cases x)
  case (Fin a)
  then show ?thesis by (simp add: accs_entry_def min_def max_def)
next
  case PInf
  have "accs_entry PInf = Fin 0.99 \<and> (0.01::real) \<le> 0.99 \<and> (0.99::real) \<le> 0.99"
    by (simp add: accs_entry_cases)
  then show ?thesis unfolding PInf by blast
next
  case MInf
  have "accs_entry MInf = Fin 0.01 \<and> (0.01::real) \<le> 0.01 \<and> (0.01::real) \<le> 0.99"
    by (simp add: accs_entry_cases)
  then show ?thesis unfolding MInf by blast
next
  case NaN
  with assms show ?thesis by simp
qed

lemma accs_value:
  "gamma self = Some g \<Longrightarrow> accs self = Inr (map (map accs_entry) g)"
  by (simp add: accs_def bnd_def attr_def)

text \<open>
  C8 (amended).  For every parameter matrix \<open>gamma\<close>, \<open>accs\<close> returns a matrix of the shape of
  \<open>gamma\<close>.  An entry from a finite parameter \<open>x\<close>, whatever its size, is \<open>0.5 * (x + 1)\<close> when
  that lies in \<open>[0.01, 0.99]\<close>, \<open>0.01\<close> when it is below and \<open>0.99\<close> when it is above; an
  infinite parameter gives \<open>0.99\<close> or \<open>0.01\<close>; so every entry from a parameter that is not
  NaN lies in \<open>[0.01, 0.99]\<close>.  A NaN parameter gives a NaN accuracy.
\<close>

theorem accs_clamped:
  assumes "gamma self = Some g"
  shows "\<exists>a. accs self = Inr a \<and> length a = length g \<and>
           (\<forall>t < length g. length (a ! t) = length (g ! t) \<and>
              (\<forall>i < length (g ! t).
                 (\<forall>x. g ! t ! i = Fin x \<longrightarrow>
                      a ! t ! i = Fin (if 0.5 * (x + 1) < 0.01 then 0.01
                                       else if 0.99 < 0.5 * (x + 1) then 0.99
                                       else 0.5 * (x + 1))) \<and>
                 (g ! t ! i = PInf \<longrightarrow> a ! t ! i = Fin 0.99) \<and>
                 (g ! t ! i = MInf \<longrightarrow> a ! t ! i = Fin 0.01) \<and>
                 (g ! t ! i = NaN \<longrightarrow> a ! t ! i = NaN) \<and>
                 (g ! t ! i \<noteq> NaN \<longrightarrow> (\<exists>r. a ! t ! i = Fin r \<and> 0.01 \<le> r \<and> r \<le> 0.99))))"
proof -
  let ?a = "map (map accs_entry) g"
  have e: "?a ! t ! i = accs_entry (g ! t ! i)" if "t < length g" "i < length (g ! t)" for t i
    using that by simp
  have "\<forall>t < length g. length (?a ! t) = length (g ! t) \<and>
              (\<forall>i < length (g ! t).
                 (\<forall>x. g ! t ! i = Fin x \<longrightarrow>
                      ?a ! t ! i = Fin (if 0.5 * (x + 1) < 0.01 then 0.01
                                       else if 0.99 < 0.5 * (x + 1) then 0.99
                                       else 0.5 * (x + 1))) \<and>
                 (g ! t ! i = PInf \<longrightarrow> ?a ! t ! i = Fin 0.99) \<and>
                 (g ! t ! i = MInf \<longrightarrow> ?a ! t ! i = Fin 0.01) \<and>
                 (g ! t ! i = NaN \<longrightarrow> ?a ! t ! i = NaN) \<and>
                 (g ! t ! i \<noteq> NaN \<longrightarrow> (\<exists>r. ?a ! t ! i = Fin r \<and> 0.01 \<le> r \<and> r \<le> 0.99)))"
  proof (intro allI impI conjI)
    fix t assume "t < length g"
    then show "length (?a ! t) = length (g ! t)" by simp
  next
    fix t i x assume "t < length g" "i < length (g ! t)" "g ! t ! i = Fin x"
    then show "?a ! t ! i = Fin (if 0.5 * (x + 1) < 0.01 then 0.01
                                       else if 0.99 < 0.5 * (x + 1) then 0.99
                                       else 0.5 * (x + 1))"
      using e [of t i] accs_entry_cases(1) [of x] by simp
  next
    fix t i assume "t < length g" "i < length (g ! t)" "g ! t ! i = PInf"
    then show "?a ! t ! i = Fin 0.99" using e [of t i] accs_entry_cases(2) by simp
  next
    fix t i assume "t < length g" "i < length (g ! t)" "g ! t ! i = MInf"
    then show "?a ! t ! i = Fin 0.01" using e [of t i] accs_entry_cases(3) by simp
  next
    fix t i assume "t < length g" "i < length (g ! t)" "g ! t ! i = NaN"
    then show "?a ! t ! i = NaN" using e [of t i] accs_entry_cases(4) by simp
  next
    fix t i assume "t < length g" "i < length (g ! t)" "g ! t ! i \<noteq> NaN"
    then show "\<exists>r. ?a ! t ! i = Fin r \<and> 0.01 \<le> r \<and> r \<le> 0.99"
      using e [of t i] accs_entry_range [of "g ! t ! i"] by simp
  qed
  moreover have "accs self = Inr ?a" by (rule accs_value [OF assms])
  moreover have "length ?a = length g" by simp
  ultimately show ?thesis by blast
qed


theorem accs_clamped_witness:
  "\<exists>a. accs fitted3 = Inr a \<and> length a = 1 \<and> length (a ! 0) = 3 \<and>
       a ! 0 ! 0 = Fin 0.9 \<and> a ! 0 ! 1 = Fin 0.01 \<and> a ! 0 ! 2 = Fin 0.99"
proof -
  let ?g = "[[Fin 0.8, Fin (-5), Fin 3]]"
  have g: "gamma fitted3 = Some ?g" by (simp add: fitted3_def)
  from accs_clamped [OF g] obtain a where a: "accs fitted3 = Inr a" "length a = length ?g"
    and r: "\<forall>t < length ?g. length (a ! t) = length (?g ! t) \<and>
              (\<forall>i < length (?g ! t).
                 (\<forall>x. ?g ! t ! i = Fin x \<longrightarrow>
                      a ! t ! i = Fin (if 0.5 * (x + 1) < 0.01 then 0.01
                                       else if 0.99 < 0.5 * (x + 1) then 0.99
                                       else 0.5 * (x + 1))) \<and>
                 (?g ! t ! i = PInf \<longrightarrow> a ! t ! i = Fin 0.99) \<and>
                 (?g ! t ! i = MInf \<longrightarrow> a ! t ! i = Fin 0.01) \<and>
                 (?g ! t ! i = NaN \<longrightarrow> a ! t ! i = NaN) \<and>
                 (?g ! t ! i \<noteq> NaN \<longrightarrow> (\<exists>r. a ! t ! i = Fin r \<and> 0.01 \<le> r \<and> r \<le> 0.99)))"
    by blast
  have t0: "(0::nat) < length ?g" by simp
  from r t0 have r0: "length (a ! 0) = length (?g ! 0)" and
    ri: "\<forall>i < length (?g ! 0). \<forall>x. ?g ! 0 ! i = Fin x \<longrightarrow>
                      a ! 0 ! i = Fin (if 0.5 * (x + 1) < 0.01 then 0.01
                                       else if 0.99 < 0.5 * (x + 1) then 0.99
                                       else 0.5 * (x + 1))"
    by blast+
  have "a ! 0 ! 0 = Fin 0.9" using ri [rule_format, of 0 "0.8"] by simp
  moreover have "a ! 0 ! 1 = Fin 0.01" using ri [rule_format, of 1 "-5"] by simp
  moreover have "a ! 0 ! 2 = Fin 0.99" using ri [rule_format, of 2 3] by simp
  moreover have "length (a ! 0) = 3" using r0 by simp
  moreover have "length a = 1" using a(2) by simp
  ultimately show ?thesis using a(1) by blast
qed

text \<open>
  The claim C8 as stated, for every value of the parameter, fails on a NaN parameter:
  \<^verbatim>\<open>torch.clamp\<close> keeps the NaN, which is not within \<open>[0.01, 0.99]\<close>.
\<close>

theorem accs_nan_parameter:
  "accs fitted_nan = Inr [[Fin 0.99, NaN, Fin 0.9]]"
  by (simp add: accs_def bnd_def attr_def fitted_nan_def accs_entry_def inf_signed_def)

section \<open>Log-odds accuracies\<close>

lemma log_odds_entry_finite:
  assumes "0.01 \<le> a" "a \<le> 0.99"
  shows "\<exists>r. log_odds_entry (Fin a) = Fin r \<and> - ln 99 \<le> r \<and> r \<le> ln 99"
proof -
  have d: "0 < 1 - a" using assms by simp
  have q: "0 < a / (1 - a)" using assms d by simp
  have e: "log_odds_entry (Fin a) = Fin (ln (a / (1 - a)))"
    using d q by (simp add: log_odds_entry_def fsub_def)
  have up: "a / (1 - a) \<le> 99"
    using assms d by (simp add: pos_divide_le_eq)
  have lo: "1 / 99 \<le> a / (1 - a)"
    using assms d by (simp add: pos_le_divide_eq)
  have "ln (a / (1 - a)) \<le> ln 99" using up q by simp
  moreover have "ln (1 / 99) \<le> ln (a / (1 - a))"
  proof -
    have "(0::real) < 1 / 99" by simp
    from ln_le_cancel_iff [OF this q] lo show ?thesis by blast
  qed
  moreover have "ln (1 / 99 :: real) = - ln 99" by (simp add: ln_div)
  ultimately show ?thesis using e by simp
qed

lemma log_odds_of_parameter:
  "x \<noteq> NaN \<Longrightarrow> \<exists>r. log_odds_entry (accs_entry x) = Fin r \<and> - ln 99 \<le> r \<and> r \<le> ln 99"
  "log_odds_entry (accs_entry NaN) = NaN"
proof -
  show "log_odds_entry (accs_entry NaN) = NaN"
    by (simp add: accs_entry_cases log_odds_entry_def)
  assume "x \<noteq> NaN"
  from accs_entry_range [OF this] obtain a where "accs_entry x = Fin a" "0.01 \<le> a" "a \<le> 0.99"
    by blast
  then show "\<exists>r. log_odds_entry (accs_entry x) = Fin r \<and> - ln 99 \<le> r \<and> r \<le> ln 99"
    using log_odds_entry_finite [of a] by simp
qed

text \<open>
  C10 (amended).  For every parameter matrix \<open>gamma\<close>, \<open>log_odds_accs\<close> returns a matrix of the
  shape of \<open>gamma\<close>; every entry from a parameter that is not NaN (finite of any size, or
  infinite) is a finite number between \<open>- ln 99\<close> and \<open>ln 99\<close>, and an entry from a NaN
  parameter is NaN.
\<close>

theorem log_odds_accs_finite:
  assumes "gamma self = Some g"
  shows "\<exists>l. log_odds_accs self = Inr l \<and> length l = length g \<and>
           (\<forall>t < length g. length (l ! t) = length (g ! t) \<and>
              (\<forall>i < length (g ! t).
                 (g ! t ! i \<noteq> NaN \<longrightarrow> (\<exists>r. l ! t ! i = Fin r \<and> - ln 99 \<le> r \<and> r \<le> ln 99)) \<and>
                 (g ! t ! i = NaN \<longrightarrow> l ! t ! i = NaN)))"
proof -
  let ?l = "map (map log_odds_entry) (map (map accs_entry) g)"
  have v: "log_odds_accs self = Inr ?l"
    by (simp add: log_odds_accs_def accs_value [OF assms] bnd_def)
  have e: "?l ! t ! i = log_odds_entry (accs_entry (g ! t ! i))"
    if "t < length g" "i < length (g ! t)" for t i
    using that by simp
  have "\<forall>t < length g. length (?l ! t) = length (g ! t) \<and>
              (\<forall>i < length (g ! t).
                 (g ! t ! i \<noteq> NaN \<longrightarrow> (\<exists>r. ?l ! t ! i = Fin r \<and> - ln 99 \<le> r \<and> r \<le> ln 99)) \<and>
                 (g ! t ! i = NaN \<longrightarrow> ?l ! t ! i = NaN))"
  proof (intro allI impI conjI)
    fix t assume "t < length g"
    then show "length (?l ! t) = length (g ! t)" by simp
  next
    fix t i assume "t < length g" "i < length (g ! t)" "g ! t ! i \<noteq> NaN"
    then show "\<exists>r. ?l ! t ! i = Fin r \<and> - ln 99 \<le> r \<and> r \<le> ln 99"
      using e [of t i] log_odds_of_parameter(1) [of "g ! t ! i"] by simp
  next
    fix t i assume "t < length g" "i < length (g ! t)" "g ! t ! i = NaN"
    then show "?l ! t ! i = NaN" using e [of t i] log_odds_of_parameter(2) by simp
  qed
  moreover have "length ?l = length g" by simp
  ultimately show ?thesis using v by blast
qed

theorem log_odds_accs_finite_witness:
  "\<exists>l r. log_odds_accs fitted3 = Inr l \<and> length l = 1 \<and> length (l ! 0) = 3 \<and>
       l ! 0 ! 1 = Fin r \<and> - ln 99 \<le> r \<and> r \<le> ln 99"
proof -
  let ?g = "[[Fin 0.8, Fin (-5), Fin 3]]"
  have g: "gamma fitted3 = Some ?g" by (simp add: fitted3_def)
  from log_odds_accs_finite [OF g] obtain l where l: "log_odds_accs fitted3 = Inr l"
    "length l = length ?g"
    and r: "\<forall>t < length ?g. length (l ! t) = length (?g ! t) \<and>
              (\<forall>i < length (?g ! t).
                 (?g ! t ! i \<noteq> NaN \<longrightarrow> (\<exists>r. l ! t ! i = Fin r \<and> - ln 99 \<le> r \<and> r \<le> ln 99)) \<and>
                 (?g ! t ! i = NaN \<longrightarrow> l ! t ! i = NaN))"
    by blast
  have t0: "(0::nat) < length ?g" by simp
  from r t0 have r0: "length (l ! 0) = length (?g ! 0)" and
    ri: "\<forall>i < length (?g ! 0). ?g ! 0 ! i \<noteq> NaN \<longrightarrow>
           (\<exists>r. l ! 0 ! i = Fin r \<and> - ln 99 \<le> r \<and> r \<le> ln 99)"
    by blast+
  have "\<exists>r. l ! 0 ! 1 = Fin r \<and> - ln 99 \<le> r \<and> r \<le> ln 99"
    using ri [rule_format, of 1] by simp
  moreover have "length (l ! 0) = 3" using r0 by simp
  moreover have "length l = 1" using l(2) by simp
  ultimately show ?thesis using l(1) by blast
qed

text \<open>
  The claim C10 as stated, for every value of the parameter, fails on a NaN parameter: the
  accuracy is NaN and so is its log-odds.
\<close>

theorem log_odds_nan_parameter:
  "log_odds_accs fitted_nan = Inr [[Fin (ln 99), NaN, Fin (ln 9)]]"
  by (simp add: log_odds_accs_def accs_def bnd_def attr_def fitted_nan_def accs_entry_def
      log_odds_entry_def fsub_def inf_signed_def)

end
